theory Spec2Isabelle
  imports Main
begin

section \<open>The rule validator of \<^verbatim>\<open>src/utils/rule-validator.ts\<close>\<close>

text \<open>
  The module defines one class, \<^verbatim>\<open>RuleValidator\<close>: a tree of validation nodes. Each node
  carries a description (an id, an optional guard \<^verbatim>\<open>when\<close> and an optional body
  \<^verbatim>\<open>rule\<close>), an ordered list of children and its current result. \<^verbatim>\<open>validate\<close> walks the
  tree depth first, merges every outcome into the node with \<^verbatim>\<open>handleResult\<close> and reports
  status changes to an optional observer.

  The embedding is shallow. A callback supplied by the caller (a guard, a rule body, the
  observer) is handed the context and the node, whose \<^verbatim>\<open>result\<close> field is public: it is a
  function from the context and the node's result as it finds them to its outcome and to
  the context and the node's result as it leaves them. Guards, rule bodies and the observer
  may throw. What the class mutates (the \<^verbatim>\<open>result\<close> field of every node) is returned
  updated; a promise is the value it settles to.

  Outside the model: a callback that writes the \<^verbatim>\<open>result\<close> of another node than the one it
  is handed, replaces \<^verbatim>\<open>ruleInfo\<close>, adds children or calls \<^verbatim>\<open>validate\<close> while a call is
  under way; what an asynchronous guard does after it has returned its promise; and a node
  that is its own descendant (the datatype has trees only).
\<close>

subsection \<open>Results and errors\<close>

text \<open>The six string literals of \<^verbatim>\<open>ValidationResult.status\<close>, in the order of the source.\<close>

datatype Status = NONE | NOT_APPLICABLE | RUNNING | PASS | INCONCLUSIVE | FAIL

text \<open>
  \<^verbatim>\<open>class ValidationError<EC> extends Error\<close>: the constructor stores \<^verbatim>\<open>errorCode\<close>, hands the
  optional message to \<^verbatim>\<open>Error\<close>, and the field initialiser sets \<^verbatim>\<open>errorName\<close> to the empty
  string. The type \<open>'x\<close> stands for the JavaScript values that are not instances of
  \<^verbatim>\<open>ValidationError\<close>.
\<close>

record 'x ValidationError =
  errorCode :: 'x
  message :: "string option"
  errorName :: string

definition new_ValidationError :: "'x \<Rightarrow> string option \<Rightarrow> 'x ValidationError" where
  "new_ValidationError code msg = \<lparr>errorCode = code, message = msg, errorName = ''''\<rparr>"

record 'x ValidationResult =
  status :: Status
  error :: "'x ValidationError option"

text \<open>
  Anything can be thrown in JavaScript. The source tells two kinds apart
  (\<^verbatim>\<open>E instanceof ValidationError\<close>).
\<close>

datatype 'x raised = ValidationErrorInstance "'x ValidationError" | OtherValue 'x

text \<open>
  A promise is modelled by how it settles: fulfilled with a value, rejected with a raised
  value, or never settled. The promise returned by an \<^verbatim>\<open>async\<close> function is of the same
  type: \<open>RejectedWith\<close> is an exception that left the function, \<open>Pending\<close> an \<^verbatim>\<open>await\<close>
  that never resumes.
\<close>

datatype ('a, 'x) Promise = Fulfilled 'a | RejectedWith "'x raised" | Pending

subsection \<open>Rule descriptions and nodes\<close>

text \<open>
  What a call of \<^verbatim>\<open>when(context, v)\<close> can do: return a boolean, return a
  \<^verbatim>\<open>Promise<boolean>\<close>, or throw. What a call of \<^verbatim>\<open>rule(context, v)\<close> can do: return
  nothing, return a result, return a \<^verbatim>\<open>Promise<ValidationResult>\<close>, or throw.
\<close>

datatype 'x when_outcome =
    WhenReturns bool
  | WhenReturnsPromise "(bool, 'x) Promise"
  | WhenThrows "'x raised"

datatype 'x rule_outcome =
    RuleReturnsVoid
  | RuleReturns "'x ValidationResult"
  | RuleReturnsPromise "('x ValidationResult, 'x) Promise"
  | RuleThrows "'x raised"

text \<open>
  \<^verbatim>\<open>interface RuleDescription<CTX>\<close>. A callback is called with the context, passed by
  reference, and the node \<^verbatim>\<open>v\<close>; \<^verbatim>\<open>v.result\<close> is public, so the callback can read and assign
  it. In the model the callback takes the context and the node's result and gives back, with
  its outcome, the context and the node's result as it leaves them. The field \<^verbatim>\<open>id\<close> is
  called \<open>ident\<close> here, \<open>id\<close> being the identity function of HOL; \<^verbatim>\<open>when\<close> and \<^verbatim>\<open>rule\<close>
  are called \<open>when_guard\<close> and \<open>rule_body\<close>.
\<close>

record ('ctx, 'x) RuleDescription =
  ident :: string
  description :: "string option"
  when_guard ::
    "('ctx \<Rightarrow> 'x ValidationResult \<Rightarrow> 'x when_outcome \<times> 'ctx \<times> 'x ValidationResult) option"
  rule_body ::
    "('ctx \<Rightarrow> 'x ValidationResult \<Rightarrow> 'x rule_outcome \<times> 'ctx \<times> 'x ValidationResult) option"

text \<open>
  \<^verbatim>\<open>class RuleValidator<CTX>\<close> with its fields \<^verbatim>\<open>ruleInfo\<close>, \<^verbatim>\<open>childValidators\<close> and
  \<^verbatim>\<open>result\<close>. The back reference \<^verbatim>\<open>parent\<close> is written by \<^verbatim>\<open>addValidator\<close> and read nowhere
  in the module; it is left out.
\<close>

datatype ('ctx, 'x) RuleValidator =
  RuleValidator
    (ruleInfo: "('ctx, 'x) RuleDescription")
    (childValidators: "('ctx, 'x) RuleValidator list")
    (result: "'x ValidationResult")

text \<open>
  \<^verbatim>\<open>type ValidationObserver = (v, result) => void\<close>. The observer is called with the node
  (here: its id, and its \<^verbatim>\<open>result\<close> field, which the observer can assign) and the node's
  new result, which is the same object as \<^verbatim>\<open>v.result\<close> at the call. It gives back the value
  it threw, if it threw, the context and the node's result as it leaves them.
\<close>

type_synonym ('ctx, 'x) ValidationObserver =
  "string \<Rightarrow> 'x ValidationResult \<Rightarrow> 'ctx \<Rightarrow> 'x raised option \<times> 'ctx \<times> 'x ValidationResult"

text \<open>
  Every call of a caller-supplied callback is recorded, in order, beside the context: this
  is the side-effect counter of the tests, kept by the model.
\<close>

datatype 'x event =
    WhenCalled string
  | RuleCalled string
  | ObserverCalled string "'x ValidationResult"

record ('ctx, 'x) run =
  ctx :: 'ctx
  trace :: "'x event list"

subsection \<open>Building a tree (lines 41-61)\<close>

definition get :: "('ctx, 'x) RuleDescription \<Rightarrow> ('ctx, 'x) RuleValidator" where
  "get info = RuleValidator info [] \<lparr>status = NONE, error = None\<rparr>"

definition addValidator ::
  "('ctx, 'x) RuleValidator \<Rightarrow> ('ctx, 'x) RuleValidator \<Rightarrow> ('ctx, 'x) RuleValidator" where
  "addValidator this rule =
     RuleValidator (ruleInfo this) (childValidators this @ [rule]) (result this)"

definition addRule ::
  "('ctx, 'x) RuleValidator \<Rightarrow> ('ctx, 'x) RuleDescription \<Rightarrow> ('ctx, 'x) RuleValidator" where
  "addRule this info = addValidator this (get info)"

subsection \<open>\<^verbatim>\<open>handleResult\<close> (lines 63-99)\<close>

text \<open>
  The \<^verbatim>\<open>switch\<close> of lines 70-94: the value of \<^verbatim>\<open>this.result\<close> after it, for the value
  \<open>cur\<close> before it.
\<close>

definition assigned ::
  "'x ValidationResult \<Rightarrow> 'x ValidationResult \<Rightarrow> bool \<Rightarrow> 'x ValidationResult" where
  "assigned cur res isFinal =
     (case status res of
        NONE \<Rightarrow> res
      | NOT_APPLICABLE \<Rightarrow> res
      | RUNNING \<Rightarrow> res
      | PASS \<Rightarrow> if isFinal \<and> status cur = RUNNING then res else cur
      | INCONCLUSIVE \<Rightarrow> if status cur \<noteq> FAIL then res else cur
      | FAIL \<Rightarrow> if status cur \<noteq> FAIL then res else cur)"

text \<open>
  The method works on \<^verbatim>\<open>this.result\<close>, here the argument \<open>cur\<close>, and on the node's id for
  the observer. It gives back what the observer threw, if it was called and threw, the
  \<^verbatim>\<open>this.result\<close> it leaves (the observer may have assigned it) and the run after the
  observer's call. The call of line 96 is outside any \<^verbatim>\<open>try\<close>.
\<close>

definition handleResult ::
  "string \<Rightarrow> 'x ValidationResult \<Rightarrow> 'x ValidationResult \<Rightarrow>
   ('ctx, 'x) ValidationObserver option \<Rightarrow> bool \<Rightarrow> ('ctx, 'x) run \<Rightarrow>
   'x raised option \<times> 'x ValidationResult \<times> ('ctx, 'x) run" where
  "handleResult this_id cur res observer isFinal s =
     (let previousStatus = status cur;
          new = assigned cur res isFinal
      in case observer of
           Some obs \<Rightarrow>
             if previousStatus \<noteq> status new
             then (case obs this_id new (ctx s) of
                     (thrown, c, left) \<Rightarrow>
                       (thrown, left,
                        \<lparr>ctx = c, trace = trace s @ [ObserverCalled this_id new]\<rparr>))
             else (None, new, s)
         | None \<Rightarrow> (None, new, s))"

subsection \<open>\<^verbatim>\<open>executeRule\<close> (lines 101-120)\<close>

text \<open>
  The whole call of the body, the \<^verbatim>\<open>await\<close> included, is inside \<^verbatim>\<open>try\<close>: a thrown value and
  a rejected promise both reach the \<^verbatim>\<open>catch\<close>. A promise that never settles leaves the
  method suspended. The body is handed the node, so the method also gives back the
  \<^verbatim>\<open>this.result\<close> the body leaves.
\<close>

definition caught :: "'x raised \<Rightarrow> 'x ValidationResult" where
  "caught E =
     \<lparr>status = FAIL,
      error = Some (case E of
                      ValidationErrorInstance e \<Rightarrow> e
                    | OtherValue x \<Rightarrow> new_ValidationError x None)\<rparr>"

definition executeRule ::
  "('ctx, 'x) RuleDescription \<Rightarrow> 'x ValidationResult \<Rightarrow> ('ctx, 'x) run \<Rightarrow>
   ('x ValidationResult, 'x) Promise \<times> 'x ValidationResult \<times> ('ctx, 'x) run" where
  "executeRule info cur s =
     (case rule_body info of
        None \<Rightarrow> (Fulfilled \<lparr>status = PASS, error = None\<rparr>, cur, s)
      | Some body \<Rightarrow>
          (case body (ctx s) cur of
             (out, c, left) \<Rightarrow>
               ((case out of
                   RuleReturnsVoid \<Rightarrow> Fulfilled \<lparr>status = PASS, error = None\<rparr>
                 | RuleReturns res \<Rightarrow> Fulfilled res
                 | RuleReturnsPromise (Fulfilled res) \<Rightarrow> Fulfilled res
                 | RuleReturnsPromise (RejectedWith E) \<Rightarrow> Fulfilled (caught E)
                 | RuleReturnsPromise Pending \<Rightarrow> Pending
                 | RuleThrows E \<Rightarrow> Fulfilled (caught E)),
                left,
                \<lparr>ctx = c, trace = trace s @ [RuleCalled (ident info)]\<rparr>)))"

subsection \<open>\<^verbatim>\<open>validate\<close> (lines 122-150)\<close>

text \<open>
  Line 125: \<^verbatim>\<open>!this.ruleInfo.when || this.ruleInfo.when(context, this)\<close>. The value is used
  as the condition of the \<^verbatim>\<open>if\<close> of line 127 as it is: a boolean counts as itself, and a
  promise, being an object, counts as true whatever it settles to. The call is outside any
  \<^verbatim>\<open>try\<close>, so a guard that throws ends \<^verbatim>\<open>validate\<close>.
\<close>

definition shouldExec ::
  "('ctx, 'x) RuleDescription \<Rightarrow> 'x ValidationResult \<Rightarrow> ('ctx, 'x) run \<Rightarrow>
   ('x raised + bool) \<times> 'x ValidationResult \<times> ('ctx, 'x) run" where
  "shouldExec info cur s =
     (case when_guard info of
        None \<Rightarrow> (Inr True, cur, s)
      | Some g \<Rightarrow>
          (case g (ctx s) cur of
             (out, c, left) \<Rightarrow>
               ((case out of
                   WhenReturns b \<Rightarrow> Inr b
                 | WhenReturnsPromise p \<Rightarrow> Inr True
                 | WhenThrows E \<Rightarrow> Inl E),
                left,
                \<lparr>ctx = c, trace = trace s @ [WhenCalled (ident info)]\<rparr>)))"

text \<open>
  Lines 131-133: the node's own rule, merged in as a non-final result. The result of
  \<^verbatim>\<open>executeRule\<close> is awaited. The promise given back says how the two lines end: normally,
  by an exception, or never.
\<close>

definition ownRule ::
  "('ctx, 'x) RuleDescription \<Rightarrow> 'x ValidationResult \<Rightarrow> ('ctx, 'x) ValidationObserver option \<Rightarrow>
   ('ctx, 'x) run \<Rightarrow> (unit, 'x) Promise \<times> 'x ValidationResult \<times> ('ctx, 'x) run" where
  "ownRule info cur observer s =
     (case rule_body info of
        None \<Rightarrow> (Fulfilled (), cur, s)
      | Some _ \<Rightarrow>
          (case executeRule info cur s of
             (Fulfilled res, cur', s') \<Rightarrow>
               (case handleResult (ident info) cur' res observer False s' of
                  (None, cur'', s'') \<Rightarrow> (Fulfilled (), cur'', s'')
                | (Some E, cur'', s'') \<Rightarrow> (RejectedWith E, cur'', s''))
           | (RejectedWith E, cur', s') \<Rightarrow> (RejectedWith E, cur', s')
           | (Pending, cur', s') \<Rightarrow> (Pending, cur', s')))"

text \<open>
  \<open>validate\<close> returns the promise of the source, the node with its \<^verbatim>\<open>result\<close> fields as
  the call leaves them, and the run. \<open>childLoop\<close> is the \<^verbatim>\<open>for\<close> loop of lines 135-142 over
  the children that are left; it threads the parent's \<^verbatim>\<open>this.result\<close> and returns the
  children as the loop leaves them.
\<close>

fun validate ::
  "('ctx, 'x) RuleValidator \<Rightarrow> ('ctx, 'x) ValidationObserver option \<Rightarrow> ('ctx, 'x) run \<Rightarrow>
   ('x ValidationResult, 'x) Promise \<times> ('ctx, 'x) RuleValidator \<times> ('ctx, 'x) run"
and childLoop ::
  "('ctx, 'x) RuleValidator list \<Rightarrow> string \<Rightarrow> 'x ValidationResult \<Rightarrow>
   ('ctx, 'x) ValidationObserver option \<Rightarrow> ('ctx, 'x) run \<Rightarrow>
   (unit, 'x) Promise \<times> 'x ValidationResult \<times> ('ctx, 'x) RuleValidator list \<times> ('ctx, 'x) run"
where
  "validate (RuleValidator info cs r0) observer s =
     (case shouldExec info \<lparr>status = NONE, error = None\<rparr> s of
        (Inl E, r1, s1) \<Rightarrow> (RejectedWith E, RuleValidator info cs r1, s1)
      | (Inr True, r1, s1) \<Rightarrow>
          (case handleResult (ident info) r1 \<lparr>status = RUNNING, error = None\<rparr>
                  observer False s1 of
             (Some E, r2, s2) \<Rightarrow> (RejectedWith E, RuleValidator info cs r2, s2)
           | (None, r2, s2) \<Rightarrow>
          (case ownRule info r2 observer s2 of
             (RejectedWith E, r3, s3) \<Rightarrow> (RejectedWith E, RuleValidator info cs r3, s3)
           | (Pending, r3, s3) \<Rightarrow> (Pending, RuleValidator info cs r3, s3)
           | (Fulfilled _, r3, s3) \<Rightarrow>
          (case childLoop cs (ident info) r3 observer s3 of
             (RejectedWith E, r4, cs', s4) \<Rightarrow> (RejectedWith E, RuleValidator info cs' r4, s4)
           | (Pending, r4, cs', s4) \<Rightarrow> (Pending, RuleValidator info cs' r4, s4)
           | (Fulfilled _, r4, cs', s4) \<Rightarrow>
          (case (if status r4 = RUNNING
                 then handleResult (ident info) r4 \<lparr>status = PASS, error = None\<rparr>
                        observer True s4
                 else (None, r4, s4)) of
             (Some E, r5, s5) \<Rightarrow> (RejectedWith E, RuleValidator info cs' r5, s5)
           | (None, r5, s5) \<Rightarrow> (Fulfilled r5, RuleValidator info cs' r5, s5)))))
      | (Inr False, r1, s1) \<Rightarrow>
          (case handleResult (ident info) r1 \<lparr>status = NOT_APPLICABLE, error = None\<rparr>
                  observer True s1 of
             (Some E, r2, s2) \<Rightarrow> (RejectedWith E, RuleValidator info cs r2, s2)
           | (None, r2, s2) \<Rightarrow> (Fulfilled r2, RuleValidator info cs r2, s2)))"
| "childLoop [] this_id cur observer s = (Fulfilled (), cur, [], s)"
| "childLoop (child # rest) this_id cur observer s =
     (if status cur \<noteq> RUNNING then (Fulfilled (), cur, child # rest, s)
      else
        (case validate child observer s of
           (RejectedWith E, child', s1) \<Rightarrow> (RejectedWith E, cur, child' # rest, s1)
         | (Pending, child', s1) \<Rightarrow> (Pending, cur, child' # rest, s1)
         | (Fulfilled childResult, child', s1) \<Rightarrow>
             (case handleResult this_id cur childResult observer False s1 of
                (Some E, cur', s2) \<Rightarrow> (RejectedWith E, cur', child' # rest, s2)
              | (None, cur', s2) \<Rightarrow>
                  (case childLoop rest this_id cur' observer s2 of
                     (p, cur'', rest', s3) \<Rightarrow> (p, cur'', child' # rest', s3)))))"

subsection \<open>Notions for the statements\<close>

text \<open>The descriptions of a node and of every node below it, the node's own first.\<close>

fun infos :: "('ctx, 'x) RuleValidator \<Rightarrow> ('ctx, 'x) RuleDescription list" where
  "infos (RuleValidator info cs r) = info # concat (map infos cs)"

text \<open>
  The result a call of a rule body hands to \<^verbatim>\<open>executeRule\<close>, when it hands one over: the
  returned object, or the value its promise is fulfilled with.
\<close>

fun handed_over :: "'x rule_outcome \<Rightarrow> 'x ValidationResult option" where
  "handed_over (RuleReturns res) = Some res"
| "handed_over (RuleReturnsPromise (Fulfilled res)) = Some res"
| "handed_over _ = None"

text \<open>
  A guard throws when some call of it throws; the observer throws when some call of it
  throws; a rule body returns \<open>NONE\<close> when some call of it hands over a result of that
  status.
\<close>

definition guard_throws :: "('ctx, 'x) RuleDescription \<Rightarrow> bool" where
  "guard_throws info = (\<exists>g c r E. when_guard info = Some g \<and> fst (g c r) = WhenThrows E)"

definition observer_throws :: "('ctx, 'x) ValidationObserver option \<Rightarrow> bool" where
  "observer_throws observer = (\<exists>ob i r c E. observer = Some ob \<and> fst (ob i r c) = Some E)"

definition returns_none :: "('ctx, 'x) RuleDescription \<Rightarrow> bool" where
  "returns_none info =
     (\<exists>body c r res. rule_body info = Some body \<and> handed_over (fst (body c r)) = Some res \<and>
        status res = NONE)"

text \<open>
  A callback keeps the node's result when no call of it assigns \<^verbatim>\<open>v.result\<close>: the node's
  result is, after the call, what it was before.
\<close>

definition guard_keeps :: "('ctx, 'x) RuleDescription \<Rightarrow> bool" where
  "guard_keeps info = (\<forall>g c r. when_guard info = Some g \<longrightarrow> snd (snd (g c r)) = r)"

definition rule_keeps :: "('ctx, 'x) RuleDescription \<Rightarrow> bool" where
  "rule_keeps info = (\<forall>body c r. rule_body info = Some body \<longrightarrow> snd (snd (body c r)) = r)"

definition observer_keeps :: "('ctx, 'x) ValidationObserver option \<Rightarrow> bool" where
  "observer_keeps observer = (\<forall>ob i r c. observer = Some ob \<longrightarrow> snd (snd (ob i r c)) = r)"

text \<open>
  No guard of the tree throws; no rule body of the tree returns \<open>NONE\<close>; no guard and no
  rule body of the tree assigns the result of its node.
\<close>

definition guards_return :: "('ctx, 'x) RuleValidator \<Rightarrow> bool" where
  "guards_return v = (\<forall>info\<in>set (infos v). \<not> guard_throws info)"

definition no_rule_returns_none :: "('ctx, 'x) RuleValidator \<Rightarrow> bool" where
  "no_rule_returns_none v = (\<forall>info\<in>set (infos v). \<not> returns_none info)"

definition results_kept :: "('ctx, 'x) RuleValidator \<Rightarrow> bool" where
  "results_kept v = (\<forall>info\<in>set (infos v). guard_keeps info \<and> rule_keeps info)"

subsection \<open>Callbacks and runs for concrete trees\<close>

text \<open>
  The context of the examples is a counter. A rule body made by \<open>counting\<close> adds one to it
  and ends as given; one made by \<open>assigning\<close> also assigns the given result to the node it
  is handed. A guard made by \<open>answering\<close> leaves context and node alone and ends as given.
  Raised values that are no \<^verbatim>\<open>ValidationError\<close> are strings.
\<close>

definition counting ::
  "string rule_outcome \<Rightarrow> nat \<Rightarrow> string ValidationResult \<Rightarrow>
   string rule_outcome \<times> nat \<times> string ValidationResult" where
  "counting out c r = (out, Suc c, r)"

definition assigning ::
  "string ValidationResult \<Rightarrow> string rule_outcome \<Rightarrow> nat \<Rightarrow> string ValidationResult \<Rightarrow>
   string rule_outcome \<times> nat \<times> string ValidationResult" where
  "assigning w out c r = (out, Suc c, w)"

definition answering ::
  "string when_outcome \<Rightarrow> nat \<Rightarrow> string ValidationResult \<Rightarrow>
   string when_outcome \<times> nat \<times> string ValidationResult" where
  "answering out c r = (out, c, r)"

definition spec ::
  "string \<Rightarrow>
   (nat \<Rightarrow> string ValidationResult \<Rightarrow> string when_outcome \<times> nat \<times> string ValidationResult) option \<Rightarrow>
   (nat \<Rightarrow> string ValidationResult \<Rightarrow> string rule_outcome \<times> nat \<times> string ValidationResult) option \<Rightarrow>
   (nat, string) RuleDescription" where
  "spec i g b = \<lparr>ident = i, description = None, when_guard = g, rule_body = b\<rparr>"

definition start :: "(nat, string) run" where
  "start = \<lparr>ctx = 0, trace = []\<rparr>"

text \<open>
  An observer that leaves context and node alone and returns normally, one that throws
  when it is told that the given node has the given status, and one that assigns the given
  result to every node it is told of; their calls are in the trace.
\<close>

definition listener :: "(nat, string) ValidationObserver" where
  "listener i r c = (None, c, r)"

definition alarm :: "string \<Rightarrow> Status \<Rightarrow> (nat, string) ValidationObserver" where
  "alarm who st i r c =
     (if i = who \<and> status r = st then Some (OtherValue ''alarm'') else None, c, r)"

definition meddler :: "string ValidationResult \<Rightarrow> (nat, string) ValidationObserver" where
  "meddler w i r c = (None, c, w)"

lemmas model_defs =
  get_def addValidator_def addRule_def assigned_def handleResult_def executeRule_def caught_def
  new_ValidationError_def shouldExec_def ownRule_def Let_def
  counting_def assigning_def answering_def spec_def start_def listener_def alarm_def
  meddler_def

lemmas eval_defs =
  model_defs guards_return_def guard_throws_def observer_throws_def no_rule_returns_none_def
  returns_none_def guard_keeps_def rule_keeps_def observer_keeps_def results_kept_def

section \<open>The merge: \<^verbatim>\<open>handleResult\<close>\<close>

lemma assigned_eq:
  "assigned cur res fin =
     (if status res = PASS then (if fin \<and> status cur = RUNNING then res else cur)
      else if status res = INCONCLUSIVE \<or> status res = FAIL
           then (if status cur \<noteq> FAIL then res else cur)
      else res)"
  by (cases "status res") (simp_all add: assigned_def)

lemma handleResult_no_observer:
  "handleResult i cur res None fin s = (None, assigned cur res fin, s)"
  by (simp add: handleResult_def Let_def)

lemma handleResult_unchanged:
  "status (assigned cur res fin) = status cur \<Longrightarrow>
   handleResult i cur res obs fin s = (None, assigned cur res fin, s)"
  by (simp add: handleResult_def Let_def split: option.splits)

lemma handleResult_called:
  "status (assigned cur res fin) \<noteq> status cur \<Longrightarrow>
   handleResult i cur res (Some ob) fin s =
     (fst (ob i (assigned cur res fin) (ctx s)),
      snd (snd (ob i (assigned cur res fin) (ctx s))),
      \<lparr>ctx = fst (snd (ob i (assigned cur res fin) (ctx s))),
        trace = trace s @ [ObserverCalled i (assigned cur res fin)]\<rparr>)"
  by (auto simp add: handleResult_def Let_def split: prod.splits)

lemma handleResult_kept:
  assumes "observer_keeps obs" and "handleResult i cur res obs fin s = (t, cur', s')"
  shows "cur' = assigned cur res fin"
proof (cases "obs = None \<or> status (assigned cur res fin) = status cur")
  case True
  with assms(2) show ?thesis
    by (auto simp add: handleResult_no_observer handleResult_unchanged)
next
  case False
  then obtain ob where ob: "obs = Some ob" by auto
  with assms(1) have "snd (snd (ob i (assigned cur res fin) (ctx s))) = assigned cur res fin"
    by (simp add: observer_keeps_def)
  with False ob assms(2) show ?thesis by (simp add: handleResult_called)
qed

lemma handleResult_returns:
  assumes "\<not> observer_throws obs" and "handleResult i cur res obs fin s = (t, cur', s')"
  shows "t = None"
proof (cases "obs = None \<or> status (assigned cur res fin) = status cur")
  case True
  with assms(2) show ?thesis
    by (auto simp add: handleResult_no_observer handleResult_unchanged)
next
  case False
  then obtain ob where ob: "obs = Some ob" by auto
  with assms(1) have "fst (ob i (assigned cur res fin) (ctx s)) = None"
    by (cases "fst (ob i (assigned cur res fin) (ctx s))") (auto simp add: observer_throws_def)
  with False ob assms(2) show ?thesis by (simp add: handleResult_called)
qed


text \<open>
  C2. In the \<^verbatim>\<open>switch\<close> of \<^verbatim>\<open>handleResult\<close>, an incoming result of status \<open>NONE\<close>,
  \<open>NOT_APPLICABLE\<close> or \<open>RUNNING\<close> becomes the node's result whatever the current one is. An
  incoming \<open>PASS\<close> becomes the node's result exactly when the merge is final and the current
  status is \<open>RUNNING\<close>; otherwise, and so in every merge that is not final, the current
  result stays. What the \<^verbatim>\<open>switch\<close> assigns is the result \<^verbatim>\<open>handleResult\<close> leaves in the node,
  unless the observer called at line 96 assigns the field itself.
\<close>

theorem handleResult_overwrite_and_pass:
  "(status res \<in> {NONE, NOT_APPLICABLE, RUNNING} \<longrightarrow> assigned cur res fin = res) \<and>
   (status res = PASS \<longrightarrow>
      assigned cur res fin = (if fin \<and> status cur = RUNNING then res else cur)) \<and>
   (status res = PASS \<longrightarrow> assigned cur res False = cur) \<and>
   (observer_keeps obs \<longrightarrow>
      fst (snd (handleResult i cur res obs fin s)) = assigned cur res fin)"
proof -
  have "fst (snd (handleResult i cur res obs fin s)) = assigned cur res fin"
    if "observer_keeps obs"
    using that handleResult_kept [of obs i cur res fin s]
    by (cases "handleResult i cur res obs fin s") auto
  then show ?thesis by (auto simp add: assigned_eq)
qed

theorem handleResult_overwrite_and_pass_witness:
  "status \<lparr>status = NOT_APPLICABLE, error = None\<rparr> \<in> {NONE, NOT_APPLICABLE, RUNNING} \<and>
   assigned \<lparr>status = FAIL, error = None\<rparr> \<lparr>status = NOT_APPLICABLE, error = None\<rparr> False
     = \<lparr>status = NOT_APPLICABLE, error = None :: string ValidationError option\<rparr> \<and>
   observer_keeps (Some listener) \<and>
   fst (snd (handleResult ''n'' \<lparr>status = FAIL, error = None\<rparr>
          \<lparr>status = NOT_APPLICABLE, error = None\<rparr> (Some listener) False start))
     = \<lparr>status = NOT_APPLICABLE, error = None\<rparr> \<and>
   status \<lparr>status = PASS, error = None\<rparr> = PASS \<and>
   fst (snd (handleResult ''n'' \<lparr>status = RUNNING, error = None\<rparr>
          \<lparr>status = PASS, error = None\<rparr> (Some listener) True start))
     = \<lparr>status = PASS, error = None\<rparr> \<and>
   fst (snd (handleResult ''n'' \<lparr>status = RUNNING, error = None\<rparr>
          \<lparr>status = PASS, error = None\<rparr> (Some listener) False start))
     = \<lparr>status = RUNNING, error = None\<rparr>"
proof -
  have k: "observer_keeps (Some listener)"
    by (simp add: observer_keeps_def listener_def)
  from k
    handleResult_overwrite_and_pass
      [where res = "\<lparr>status = NOT_APPLICABLE, error = None\<rparr>" and i = "''n''"
         and cur = "\<lparr>status = FAIL, error = None\<rparr>" and obs = "Some listener"
         and fin = False and s = start]
    handleResult_overwrite_and_pass
      [where res = "\<lparr>status = PASS, error = None\<rparr>" and i = "''n''"
         and cur = "\<lparr>status = RUNNING, error = None\<rparr>" and obs = "Some listener"
         and fin = True and s = start]
    handleResult_overwrite_and_pass
      [where res = "\<lparr>status = PASS, error = None\<rparr>" and i = "''n''"
         and cur = "\<lparr>status = RUNNING, error = None\<rparr>" and obs = "Some listener"
         and fin = False and s = start]
  show ?thesis by simp
qed

text \<open>
  C3. In the \<^verbatim>\<open>switch\<close> of \<^verbatim>\<open>handleResult\<close>, an incoming \<open>INCONCLUSIVE\<close> becomes the node's
  result unless the current status is \<open>FAIL\<close>; an incoming \<open>FAIL\<close> becomes the node's result
  unless the current status is \<open>FAIL\<close> already. In both exceptions the current result stays
  as it is, its error included. What the \<^verbatim>\<open>switch\<close> assigns is the result \<^verbatim>\<open>handleResult\<close>
  leaves in the node, unless the observer called at line 96 assigns the field itself.
\<close>

theorem handleResult_inconclusive_and_fail:
  "(status res = INCONCLUSIVE \<longrightarrow>
      assigned cur res fin = (if status cur = FAIL then cur else res)) \<and>
   (status res = FAIL \<longrightarrow>
      assigned cur res fin = (if status cur = FAIL then cur else res)) \<and>
   (observer_keeps obs \<longrightarrow>
      fst (snd (handleResult i cur res obs fin s)) = assigned cur res fin)"
proof -
  have "fst (snd (handleResult i cur res obs fin s)) = assigned cur res fin"
    if "observer_keeps obs"
    using that handleResult_kept [of obs i cur res fin s]
    by (cases "handleResult i cur res obs fin s") auto
  then show ?thesis by (auto simp add: assigned_eq)
qed

theorem handleResult_inconclusive_and_fail_witness:
  "status \<lparr>status = INCONCLUSIVE, error = None\<rparr> = INCONCLUSIVE \<and>
   observer_keeps (Some listener) \<and>
   fst (snd (handleResult ''n''
          \<lparr>status = FAIL, error = Some (new_ValidationError ''first'' None)\<rparr>
          \<lparr>status = INCONCLUSIVE, error = None\<rparr> (Some listener) False start))
     = \<lparr>status = FAIL, error = Some (new_ValidationError ''first'' None)\<rparr> \<and>
   status \<lparr>status = FAIL, error = Some (new_ValidationError ''second'' None)\<rparr> = FAIL \<and>
   fst (snd (handleResult ''n''
          \<lparr>status = FAIL, error = Some (new_ValidationError ''first'' None)\<rparr>
          \<lparr>status = FAIL, error = Some (new_ValidationError ''second'' None)\<rparr>
          (Some listener) False start))
     = \<lparr>status = FAIL, error = Some (new_ValidationError ''first'' None)\<rparr> \<and>
   fst (snd (handleResult ''n'' \<lparr>status = RUNNING, error = None\<rparr>
          \<lparr>status = FAIL, error = Some (new_ValidationError ''second'' None)\<rparr>
          (Some listener) False start))
     = \<lparr>status = FAIL, error = Some (new_ValidationError ''second'' None)\<rparr>"
proof -
  have k: "observer_keeps (Some listener)"
    by (simp add: observer_keeps_def listener_def)
  from k
    handleResult_inconclusive_and_fail
      [where res = "\<lparr>status = INCONCLUSIVE, error = None\<rparr>" and i = "''n''"
         and cur = "\<lparr>status = FAIL, error = Some (new_ValidationError ''first'' None)\<rparr>"
         and obs = "Some listener" and fin = False and s = start]
    handleResult_inconclusive_and_fail
      [where res = "\<lparr>status = FAIL, error = Some (new_ValidationError ''second'' None)\<rparr>"
         and i = "''n''"
         and cur = "\<lparr>status = FAIL, error = Some (new_ValidationError ''first'' None)\<rparr>"
         and obs = "Some listener" and fin = False and s = start]
    handleResult_inconclusive_and_fail
      [where res = "\<lparr>status = FAIL, error = Some (new_ValidationError ''second'' None)\<rparr>"
         and i = "''n''" and cur = "\<lparr>status = RUNNING, error = None\<rparr>"
         and obs = "Some listener" and fin = False and s = start]
  show ?thesis by simp
qed

section \<open>The steps of \<^verbatim>\<open>validate\<close>\<close>


lemma shouldExec_keeps:
  "guard_keeps info \<Longrightarrow> shouldExec info cur s = (g, cur', s1) \<Longrightarrow> cur' = cur"
  by (auto simp add: shouldExec_def guard_keeps_def split: option.splits prod.splits)
    (metis snd_conv)

lemma shouldExec_no_guard: "when_guard info = None \<Longrightarrow> shouldExec info cur s = (Inr True, cur, s)"
  by (simp add: shouldExec_def)


lemma executeRule_keeps:
  "rule_keeps info \<Longrightarrow> executeRule info cur s = (p, cur', s') \<Longrightarrow> cur' = cur"
  by (auto simp add: executeRule_def rule_keeps_def split: option.splits prod.splits)
    (metis snd_conv)

lemma executeRule_never_rejects: "fst (executeRule info cur s) \<noteq> RejectedWith E"
  by (auto simp add: executeRule_def
      split: option.splits prod.splits rule_outcome.splits Promise.splits)

lemma ownRule_no_rule: "rule_body info = None \<Longrightarrow> ownRule info cur obs s = (Fulfilled (), cur, s)"
  by (simp add: ownRule_def)

lemma ownRule_steps:
  assumes "rule_body info = Some body" and "ownRule info cur obs s = (q, r, s')"
  obtains
    (merged) res cur1 s1 t where "executeRule info cur s = (Fulfilled res, cur1, s1)"
      "handleResult (ident info) cur1 res obs False s1 = (t, r, s')"
      "q = (case t of None \<Rightarrow> Fulfilled () | Some E \<Rightarrow> RejectedWith E)"
  | (suspended) "executeRule info cur s = (Pending, r, s')" "q = Pending"
proof -
  obtain p cur1 s1 where e: "executeRule info cur s = (p, cur1, s1)"
    by (cases "executeRule info cur s") auto
  show thesis
  proof (cases p)
    case (Fulfilled res)
    obtain t r' s2 where h: "handleResult (ident info) cur1 res obs False s1 = (t, r', s2)"
      by (cases "handleResult (ident info) cur1 res obs False s1") auto
    with assms e Fulfilled have "r' = r" "s2 = s'"
      "q = (case t of None \<Rightarrow> Fulfilled () | Some E \<Rightarrow> RejectedWith E)"
      by (auto simp add: ownRule_def split: option.splits)
    with e Fulfilled h show thesis by (auto intro: merged)
  next
    case (RejectedWith E)
    with e executeRule_never_rejects [of info cur s E] show thesis by simp
  next
    case Pending
    with assms e show thesis by (auto simp add: ownRule_def intro: suspended)
  qed
qed


lemma childLoop_break:
  "status cur \<noteq> RUNNING \<Longrightarrow> childLoop cs i cur obs s = (Fulfilled (), cur, cs, s)"
  by (cases cs) simp_all

text \<open>One turn of the loop, for a parent that is \<open>RUNNING\<close>.\<close>

lemma childLoop_steps:
  assumes "status cur = RUNNING" and "childLoop (c # cs) i cur obs s = (q, r, cs', s')"
  obtains
    (child_stops) p c' where "validate c obs s = (p, c', s')"
      "(\<exists>E. p = RejectedWith E \<and> q = RejectedWith E) \<or> (p = Pending \<and> q = Pending)"
      "r = cur" "cs' = c' # cs"
  | (observer_throws) childResult c' s1 E where "validate c obs s = (Fulfilled childResult, c', s1)"
      "handleResult i cur childResult obs False s1 = (Some E, r, s')"
      "q = RejectedWith E" "cs' = c' # cs"
  | (goes_on) childResult c' s1 cur' s2 rest' where
      "validate c obs s = (Fulfilled childResult, c', s1)"
      "handleResult i cur childResult obs False s1 = (None, cur', s2)"
      "childLoop cs i cur' obs s2 = (q, r, rest', s')" "cs' = c' # rest'"
proof -
  obtain p c' s1 where v: "validate c obs s = (p, c', s1)"
    by (cases "validate c obs s") auto
  show thesis
  proof (cases p)
    case (Fulfilled childResult)
    obtain t cur' s2 where h: "handleResult i cur childResult obs False s1 = (t, cur', s2)"
      by (cases "handleResult i cur childResult obs False s1") auto
    show thesis
    proof (cases t)
      case None
      obtain q' r' rest' s3 where l: "childLoop cs i cur' obs s2 = (q', r', rest', s3)"
        by (cases "childLoop cs i cur' obs s2") auto
      with assms v Fulfilled h None show thesis by (auto intro: goes_on)
    next
      case (Some E)
      with assms v Fulfilled h show thesis by (auto intro: observer_throws)
    qed
  next
    case (RejectedWith E)
    with assms v show thesis by (auto intro: child_stops)
  next
    case Pending
    with assms v show thesis by (auto intro: child_stops)
  qed
qed

text \<open>The ways through \<open>validate\<close>, as a case rule.\<close>

lemma validate_steps:
  assumes "validate (RuleValidator info cs r0) obs s = (p, v', s')"
  obtains
    (guard_throws) E r1 where
      "shouldExec info \<lparr>status = NONE, error = None\<rparr> s = (Inl E, r1, s')"
      "p = RejectedWith E" "v' = RuleValidator info cs r1"
  | (not_applicable) r1 s1 t r2 where
      "shouldExec info \<lparr>status = NONE, error = None\<rparr> s = (Inr False, r1, s1)"
      "handleResult (ident info) r1 \<lparr>status = NOT_APPLICABLE, error = None\<rparr> obs True s1
         = (t, r2, s')"
      "p = (case t of None \<Rightarrow> Fulfilled r2 | Some E \<Rightarrow> RejectedWith E)"
      "v' = RuleValidator info cs r2"
  | (running_throws) r1 s1 E r2 where
      "shouldExec info \<lparr>status = NONE, error = None\<rparr> s = (Inr True, r1, s1)"
      "handleResult (ident info) r1 \<lparr>status = RUNNING, error = None\<rparr> obs False s1
         = (Some E, r2, s')"
      "p = RejectedWith E" "v' = RuleValidator info cs r2"
  | (rule_stops) r1 s1 r2 s2 q r3 where
      "shouldExec info \<lparr>status = NONE, error = None\<rparr> s = (Inr True, r1, s1)"
      "handleResult (ident info) r1 \<lparr>status = RUNNING, error = None\<rparr> obs False s1
         = (None, r2, s2)"
      "ownRule info r2 obs s2 = (q, r3, s')"
      "(\<exists>E. q = RejectedWith E \<and> p = RejectedWith E) \<or> (q = Pending \<and> p = Pending)"
      "v' = RuleValidator info cs r3"
  | (loop_stops) r1 s1 r2 s2 r3 s3 q r4 cs' where
      "shouldExec info \<lparr>status = NONE, error = None\<rparr> s = (Inr True, r1, s1)"
      "handleResult (ident info) r1 \<lparr>status = RUNNING, error = None\<rparr> obs False s1
         = (None, r2, s2)"
      "ownRule info r2 obs s2 = (Fulfilled (), r3, s3)"
      "childLoop cs (ident info) r3 obs s3 = (q, r4, cs', s')"
      "(\<exists>E. q = RejectedWith E \<and> p = RejectedWith E) \<or> (q = Pending \<and> p = Pending)"
      "v' = RuleValidator info cs' r4"
  | (completes) r1 s1 r2 s2 r3 s3 r4 cs' s4 t r5 where
      "shouldExec info \<lparr>status = NONE, error = None\<rparr> s = (Inr True, r1, s1)"
      "handleResult (ident info) r1 \<lparr>status = RUNNING, error = None\<rparr> obs False s1
         = (None, r2, s2)"
      "ownRule info r2 obs s2 = (Fulfilled (), r3, s3)"
      "childLoop cs (ident info) r3 obs s3 = (Fulfilled (), r4, cs', s4)"
      "(if status r4 = RUNNING
        then handleResult (ident info) r4 \<lparr>status = PASS, error = None\<rparr> obs True s4
        else (None, r4, s4)) = (t, r5, s')"
      "p = (case t of None \<Rightarrow> Fulfilled r5 | Some E \<Rightarrow> RejectedWith E)"
      "v' = RuleValidator info cs' r5"
proof -
  obtain g r1 s1 where g: "shouldExec info \<lparr>status = NONE, error = None\<rparr> s = (g, r1, s1)"
    by (cases "shouldExec info \<lparr>status = NONE, error = None\<rparr> s") auto
  show thesis
  proof (cases g)
    case (Inl E)
    with assms g show thesis by (auto intro: guard_throws)
  next
    case (Inr b)
    show thesis
    proof (cases b)
      case False
      obtain t r2 s2 where h: "handleResult (ident info) r1
          \<lparr>status = NOT_APPLICABLE, error = None\<rparr> obs True s1 = (t, r2, s2)"
        by (cases "handleResult (ident info) r1 \<lparr>status = NOT_APPLICABLE, error = None\<rparr>
              obs True s1") auto
      with assms g Inr False show thesis
        by (cases t) (auto intro: not_applicable)
    next
      case True
      obtain t r2 s2 where h: "handleResult (ident info) r1
          \<lparr>status = RUNNING, error = None\<rparr> obs False s1 = (t, r2, s2)"
        by (cases "handleResult (ident info) r1 \<lparr>status = RUNNING, error = None\<rparr>
              obs False s1") auto
      show thesis
      proof (cases t)
        case (Some E)
        with assms g Inr True h show thesis by (auto intro: running_throws)
      next
        case None
        obtain q r3 s3 where o: "ownRule info r2 obs s2 = (q, r3, s3)"
          by (cases "ownRule info r2 obs s2") auto
        show thesis
        proof (cases q)
          case (RejectedWith E)
          with assms g Inr True h None o show thesis by (auto intro: rule_stops)
        next
          case Pending
          with assms g Inr True h None o show thesis by (auto intro: rule_stops)
        next
          case (Fulfilled u)
          obtain q' r4 cs' s4 where l: "childLoop cs (ident info) r3 obs s3 = (q', r4, cs', s4)"
            by (cases "childLoop cs (ident info) r3 obs s3") auto
          show thesis
          proof (cases q')
            case (RejectedWith E)
            with assms g Inr True h None o Fulfilled l show thesis
              by (auto intro: loop_stops)
          next
            case Pending
            with assms g Inr True h None o Fulfilled l show thesis
              by (auto intro: loop_stops)
          next
            case (Fulfilled u')
            obtain t' r5 s5 where f: "(if status r4 = RUNNING
                then handleResult (ident info) r4 \<lparr>status = PASS, error = None\<rparr> obs True s4
                else (None, r4, s4)) = (t', r5, s5)"
              by (cases "(if status r4 = RUNNING
                then handleResult (ident info) r4 \<lparr>status = PASS, error = None\<rparr> obs True s4
                else (None, r4, s4))") auto
            with assms g Inr True h None o \<open>q = Fulfilled u\<close> l Fulfilled show thesis
              by (cases t') (auto intro: completes)
          qed
        qed
      qed
    qed
  qed
qed

section \<open>The trace only grows\<close>



section \<open>How a node comes to pass\<close>

text \<open>
  A merge that is not final never turns a status into \<open>PASS\<close>; so, when no callback
  assigns the node's result, neither the node's own rule nor the child loop does.
\<close>

lemma assigned_nonfinal_not_pass: "status cur \<noteq> PASS \<Longrightarrow> status (assigned cur res False) \<noteq> PASS"
  by (simp add: assigned_eq)

lemma handleResult_nonfinal_not_pass:
  "observer_keeps obs \<Longrightarrow> status cur \<noteq> PASS \<Longrightarrow>
   handleResult i cur res obs False s = (t, cur', s') \<Longrightarrow> status cur' \<noteq> PASS"
  using handleResult_kept [of obs i cur res False s t cur' s'] assigned_nonfinal_not_pass [of cur res]
  by simp

lemma childLoop_not_pass:
  "observer_keeps obs \<Longrightarrow> childLoop cs i cur obs s = (q, r, cs', s') \<Longrightarrow>
   status cur \<noteq> PASS \<Longrightarrow> status r \<noteq> PASS"
proof (induction cs arbitrary: cur s q r cs' s')
  case Nil
  then show ?case by simp
next
  case (Cons c cs)
  show ?case
  proof (cases "status cur = RUNNING")
    case False
    with Cons.prems show ?thesis by (simp add: childLoop_break)
  next
    case True
    from True Cons.prems(2) show ?thesis
    proof (cases rule: childLoop_steps)
      case (child_stops p c')
      with Cons.prems(3) show ?thesis by simp
    next
      case (observer_throws childResult c' s1 E)
      from handleResult_nonfinal_not_pass [OF Cons.prems(1,3) observer_throws(2)]
      show ?thesis .
    next
      case (goes_on childResult c' s1 cur' s2 rest')
      from handleResult_nonfinal_not_pass [OF Cons.prems(1,3) goes_on(2)]
      have "status cur' \<noteq> PASS" .
      from Cons.IH [OF Cons.prems(1) goes_on(3) this] show ?thesis .
    qed
  qed
qed

lemma ownRule_not_pass:
  assumes "rule_keeps info" and "observer_keeps obs" and "status cur \<noteq> PASS"
    and "ownRule info cur obs s = (q, r, s')"
  shows "status r \<noteq> PASS"
proof (cases "rule_body info")
  case None
  with assms show ?thesis by (simp add: ownRule_def)
next
  case (Some body)
  from Some assms(4) show ?thesis
  proof (cases rule: ownRule_steps)
    case (merged res cur1 s1 t)
    from executeRule_keeps [OF assms(1) merged(1)] have "cur1 = cur" .
    with handleResult_nonfinal_not_pass [OF assms(2) _ merged(2)] assms(3) show ?thesis by simp
  next
    case suspended
    from executeRule_keeps [OF assms(1) suspended(1)] assms(3) show ?thesis by simp
  qed
qed

lemma validate_bare:
  assumes "when_guard info = None" and "rule_body info = None"
    and "\<not> observer_throws obs" and "observer_keeps obs"
  shows "fst (validate (RuleValidator info [] r0) obs s) = Fulfilled \<lparr>status = PASS, error = None\<rparr>"
proof -
  obtain t r2 s2 where h: "handleResult (ident info) \<lparr>status = NONE, error = None\<rparr>
      \<lparr>status = RUNNING, error = None\<rparr> obs False s = (t, r2, s2)"
    by (cases "handleResult (ident info) \<lparr>status = NONE, error = None\<rparr>
      \<lparr>status = RUNNING, error = None\<rparr> obs False s") auto
  from handleResult_returns [OF assms(3) h] handleResult_kept [OF assms(4) h]
  have 1: "t = None" "r2 = \<lparr>status = RUNNING, error = None\<rparr>" by (simp_all add: assigned_eq)
  obtain t' r5 s5 where f: "handleResult (ident info) r2
      \<lparr>status = PASS, error = None\<rparr> obs True s2 = (t', r5, s5)"
    by (cases "handleResult (ident info) r2 \<lparr>status = PASS, error = None\<rparr> obs True s2") auto
  from handleResult_returns [OF assms(3) f] handleResult_kept [OF assms(4) f] 1
  have 2: "t' = None" "r5 = \<lparr>status = PASS, error = None\<rparr>" by (simp_all add: assigned_eq)
  from assms(1,2) h 1 f 2 show ?thesis
    by (simp add: shouldExec_no_guard ownRule_no_rule)
qed

lemma validate_pass_decomp:
  assumes keeps: "guard_keeps info" "rule_keeps info" "observer_keeps obs"
    and v: "fst (validate (RuleValidator info cs r0) obs s) = Fulfilled r" and p: "status r = PASS"
  shows "\<exists>s1 s2 r3 s3 r4 cs' s4 s5.
           shouldExec info \<lparr>status = NONE, error = None\<rparr> s
             = (Inr True, \<lparr>status = NONE, error = None\<rparr>, s1) \<and>
           handleResult (ident info) \<lparr>status = NONE, error = None\<rparr>
               \<lparr>status = RUNNING, error = None\<rparr> obs False s1
             = (None, \<lparr>status = RUNNING, error = None\<rparr>, s2) \<and>
           ownRule info \<lparr>status = RUNNING, error = None\<rparr> obs s2 = (Fulfilled (), r3, s3) \<and>
           childLoop cs (ident info) r3 obs s3 = (Fulfilled (), r4, cs', s4) \<and>
           status r4 = RUNNING \<and>
           handleResult (ident info) r4 \<lparr>status = PASS, error = None\<rparr> obs True s4
             = (None, \<lparr>status = PASS, error = None\<rparr>, s5) \<and>
           validate (RuleValidator info cs r0) obs s =
             (Fulfilled \<lparr>status = PASS, error = None\<rparr>,
              RuleValidator info cs' \<lparr>status = PASS, error = None\<rparr>, s5)"
proof -
  obtain v' s' where "validate (RuleValidator info cs r0) obs s = (Fulfilled r, v', s')"
    using v by (cases "validate (RuleValidator info cs r0) obs s") auto
  then show ?thesis
  proof (cases rule: validate_steps)
    case (guard_throws E r1)
    then show ?thesis by simp
  next
    case (not_applicable r1 s1 t r2)
    from handleResult_kept [OF keeps(3) not_applicable(2)]
    have "status r2 = NOT_APPLICABLE" by (simp add: assigned_eq)
    with not_applicable(3) p show ?thesis by (cases t) auto
  next
    case (running_throws r1 s1 E r2)
    then show ?thesis by simp
  next
    case (rule_stops r1 s1 r2 s2 q r3)
    then show ?thesis by auto
  next
    case (loop_stops r1 s1 r2 s2 r3 s3 q r4 cs')
    then show ?thesis by auto
  next
    case (completes r1 s1 r2 s2 r3 s3 r4 cs' s4 t r5)
    from shouldExec_keeps [OF keeps(1) completes(1)]
    have r1: "r1 = \<lparr>status = NONE, error = None\<rparr>" .
    from handleResult_kept [OF keeps(3) completes(2)] r1
    have r2: "r2 = \<lparr>status = RUNNING, error = None\<rparr>" by (simp add: assigned_eq)
    from ownRule_not_pass [OF keeps(2,3) _ completes(3)] r2
    have "status r3 \<noteq> PASS" by simp
    from childLoop_not_pass [OF keeps(3) completes(4) this]
    have r4: "status r4 \<noteq> PASS" .
    from completes(6) have t: "t = None" "r5 = r" by (cases t; simp)+
    with completes(5) r4 p have run: "status r4 = RUNNING"
      by (cases "status r4 = RUNNING") auto
    with completes(5) t have f: "handleResult (ident info) r4 \<lparr>status = PASS, error = None\<rparr>
        obs True s4 = (None, r, s')" by simp
    from handleResult_kept [OF keeps(3) f] run
    have r: "r = \<lparr>status = PASS, error = None\<rparr>" by (simp add: assigned_eq)
    from completes(1-4) r1 r2 run f r
      \<open>validate (RuleValidator info cs r0) obs s = (Fulfilled r, v', s')\<close> completes(7) t
    show ?thesis by auto
  qed
qed

text \<open>
  C7, as stated, fails: the rule body is handed the node (line 106) and \<^verbatim>\<open>result\<close> is a
  public field. A body that assigns \<^verbatim>\<open>v.result = {status: 'pass', error: \<dots>}\<close> and returns
  nothing leaves the node \<open>PASS\<close>: the merge of line 132 changes nothing, the loop breaks
  before the child, line 144 is skipped, and \<open>validate\<close> resolves with the assigned result.
  The observer hears of no \<open>PASS\<close>.
\<close>

theorem validate_assigned_pass_skips_final_merge:
  "validate
     (addRule
        (get (spec ''n'' None
                (Some (assigning
                   \<lparr>status = PASS, error = Some (new_ValidationError ''mine'' None)\<rparr>
                   RuleReturnsVoid))))
        (spec ''k'' None (Some (counting RuleReturnsVoid))))
     (Some listener) start
   = (Fulfilled \<lparr>status = PASS, error = Some (new_ValidationError ''mine'' None)\<rparr>,
      RuleValidator
        (spec ''n'' None
           (Some (assigning
              \<lparr>status = PASS, error = Some (new_ValidationError ''mine'' None)\<rparr>
              RuleReturnsVoid)))
        [get (spec ''k'' None (Some (counting RuleReturnsVoid)))]
        \<lparr>status = PASS, error = Some (new_ValidationError ''mine'' None)\<rparr>,
      \<lparr>ctx = 1,
        trace = [ObserverCalled ''n'' \<lparr>status = RUNNING, error = None\<rparr>, RuleCalled ''n'']\<rparr>)"
  by (simp add: model_defs)

text \<open>
  C7, amended. A node with no guard, no rule body and no children resolves with \<open>PASS\<close>,
  if the observer returns normally and leaves the node's result alone. In the \<^verbatim>\<open>switch\<close> of
  any merge, a result that was not \<open>PASS\<close> becomes \<open>PASS\<close> only if the merge is final, the
  current status \<open>RUNNING\<close> and the incoming status \<open>PASS\<close>. And if no guard and no rule
  body of the tree assigns the result of its node, and the observer assigns none, then
  whenever \<open>validate\<close> resolves with \<open>PASS\<close>, the guard was satisfied, the node's own rule and the
  child loop ran to their end and left the status \<open>RUNNING\<close>, and the result is the literal
  of line 144, put there by the final merge.
\<close>

theorem validate_pass_only_by_final_merge:
  "(when_guard info = None \<and> rule_body info = None \<and>
    \<not> observer_throws obs \<and> observer_keeps obs \<longrightarrow>
      fst (validate (RuleValidator info [] r0) obs s) = Fulfilled \<lparr>status = PASS, error = None\<rparr>) \<and>
   (status (assigned cur res fin) = PASS \<and> status cur \<noteq> PASS \<longrightarrow>
      fin \<and> status cur = RUNNING \<and> status res = PASS) \<and>
   (results_kept (RuleValidator info cs r0) \<and> observer_keeps obs \<and>
    fst (validate (RuleValidator info cs r0) obs s) = Fulfilled r \<and> status r = PASS \<longrightarrow>
      (\<exists>s1 s2 r3 s3 r4 cs' s4 s5.
         shouldExec info \<lparr>status = NONE, error = None\<rparr> s
           = (Inr True, \<lparr>status = NONE, error = None\<rparr>, s1) \<and>
         handleResult (ident info) \<lparr>status = NONE, error = None\<rparr>
             \<lparr>status = RUNNING, error = None\<rparr> obs False s1
           = (None, \<lparr>status = RUNNING, error = None\<rparr>, s2) \<and>
         ownRule info \<lparr>status = RUNNING, error = None\<rparr> obs s2 = (Fulfilled (), r3, s3) \<and>
         childLoop cs (ident info) r3 obs s3 = (Fulfilled (), r4, cs', s4) \<and>
         status r4 = RUNNING \<and>
         handleResult (ident info) r4 \<lparr>status = PASS, error = None\<rparr> obs True s4
           = (None, \<lparr>status = PASS, error = None\<rparr>, s5) \<and>
         validate (RuleValidator info cs r0) obs s =
           (Fulfilled \<lparr>status = PASS, error = None\<rparr>,
            RuleValidator info cs' \<lparr>status = PASS, error = None\<rparr>, s5)))"
proof (intro conjI impI)
  assume "when_guard info = None \<and> rule_body info = None \<and>
    \<not> observer_throws obs \<and> observer_keeps obs"
  then show "fst (validate (RuleValidator info [] r0) obs s) = Fulfilled \<lparr>status = PASS, error = None\<rparr>"
    using validate_bare [of info obs r0 s] by blast
next
  assume a: "status (assigned cur res fin) = PASS \<and> status cur \<noteq> PASS"
  then show "fin" "status cur = RUNNING" "status res = PASS"
    by (auto simp add: assigned_eq split: if_splits)
next
  assume "results_kept (RuleValidator info cs r0) \<and> observer_keeps obs \<and>
    fst (validate (RuleValidator info cs r0) obs s) = Fulfilled r \<and> status r = PASS"
  then have "guard_keeps info \<and> rule_keeps info \<and> observer_keeps obs \<and>
    fst (validate (RuleValidator info cs r0) obs s) = Fulfilled r \<and> status r = PASS"
    by (simp add: results_kept_def)
  then show "\<exists>s1 s2 r3 s3 r4 cs' s4 s5.
         shouldExec info \<lparr>status = NONE, error = None\<rparr> s
           = (Inr True, \<lparr>status = NONE, error = None\<rparr>, s1) \<and>
         handleResult (ident info) \<lparr>status = NONE, error = None\<rparr>
             \<lparr>status = RUNNING, error = None\<rparr> obs False s1
           = (None, \<lparr>status = RUNNING, error = None\<rparr>, s2) \<and>
         ownRule info \<lparr>status = RUNNING, error = None\<rparr> obs s2 = (Fulfilled (), r3, s3) \<and>
         childLoop cs (ident info) r3 obs s3 = (Fulfilled (), r4, cs', s4) \<and>
         status r4 = RUNNING \<and>
         handleResult (ident info) r4 \<lparr>status = PASS, error = None\<rparr> obs True s4
           = (None, \<lparr>status = PASS, error = None\<rparr>, s5) \<and>
         validate (RuleValidator info cs r0) obs s =
           (Fulfilled \<lparr>status = PASS, error = None\<rparr>,
            RuleValidator info cs' \<lparr>status = PASS, error = None\<rparr>, s5)"
    using validate_pass_decomp [of info obs cs r0 s r] by blast
qed

theorem validate_pass_only_by_final_merge_witness:
  "when_guard (spec ''b'' None None) = None \<and>
   rule_body (spec ''b'' None None) = None \<and>
   \<not> observer_throws (Some listener) \<and> observer_keeps (Some listener) \<and>
   results_kept (RuleValidator (spec ''n'' None (Some (counting RuleReturnsVoid))) []
                   \<lparr>status = FAIL, error = None\<rparr>) \<and>
   fst (validate (RuleValidator (spec ''b'' None None) [] \<lparr>status = FAIL, error = None\<rparr>)
          (Some listener) start)
     = Fulfilled \<lparr>status = PASS, error = None\<rparr> \<and>
   status (assigned \<lparr>status = RUNNING, error = None\<rparr>
             \<lparr>status = PASS, error = None :: string ValidationError option\<rparr> True) = PASS \<and>
   validate (RuleValidator (spec ''n'' None (Some (counting RuleReturnsVoid))) []
               \<lparr>status = FAIL, error = None\<rparr>)
       (Some listener) start
     = (Fulfilled \<lparr>status = PASS, error = None\<rparr>,
        RuleValidator (spec ''n'' None (Some (counting RuleReturnsVoid))) []
          \<lparr>status = PASS, error = None\<rparr>,
        \<lparr>ctx = 1,
          trace = [ObserverCalled ''n'' \<lparr>status = RUNNING, error = None\<rparr>,
                   RuleCalled ''n'',
                   ObserverCalled ''n'' \<lparr>status = PASS, error = None\<rparr>]\<rparr>)"
proof -
  let ?n = "spec ''n'' None (Some (counting RuleReturnsVoid))"
  have h: "when_guard (spec ''b'' None None) = None \<and> rule_body (spec ''b'' None None) = None \<and>
    \<not> observer_throws (Some listener) \<and> observer_keeps (Some listener)"
    by (simp add: eval_defs)
  have k: "results_kept (RuleValidator ?n [] \<lparr>status = FAIL, error = None\<rparr>)"
    by (simp add: eval_defs)
  have m: "status (assigned \<lparr>status = RUNNING, error = None\<rparr>
             \<lparr>status = PASS, error = None :: string ValidationError option\<rparr> True) = PASS"
    by (simp add: assigned_def)
  have e: "fst (validate (RuleValidator ?n [] \<lparr>status = FAIL, error = None\<rparr>)
       (Some listener) start) = Fulfilled \<lparr>status = PASS, error = None\<rparr>"
    by (simp add: model_defs)
  note bare = validate_pass_only_by_final_merge
    [where info = "spec ''b'' None None" and ?r0.0 = "\<lparr>status = FAIL, error = None\<rparr>"
       and obs = "Some listener" and s = start]
  note inst = validate_pass_only_by_final_merge
    [where info = ?n and ?r0.0 = "\<lparr>status = FAIL, error = None\<rparr>"
       and obs = "Some listener" and s = start and cs = "[]"
       and r = "\<lparr>status = PASS, error = None\<rparr>"]
  from bare h have p: "fst (validate (RuleValidator (spec ''b'' None None) []
                    \<lparr>status = FAIL, error = None\<rparr>) (Some listener) start)
     = Fulfilled \<lparr>status = PASS, error = None\<rparr>"
    by blast
  have hyp: "results_kept (RuleValidator ?n [] \<lparr>status = FAIL, error = None\<rparr>) \<and>
      observer_keeps (Some listener) \<and>
      fst (validate (RuleValidator ?n [] \<lparr>status = FAIL, error = None\<rparr>) (Some listener) start)
        = Fulfilled \<lparr>status = PASS, error = None\<rparr> \<and>
      status \<lparr>status = PASS, error = None :: string ValidationError option\<rparr> = PASS"
    using k h e by simp
  from inst [THEN conjunct2, THEN conjunct2, THEN mp, OF hyp] have "\<exists>cs' s5.
      validate (RuleValidator ?n [] \<lparr>status = FAIL, error = None\<rparr>) (Some listener) start =
       (Fulfilled \<lparr>status = PASS, error = None\<rparr>,
        RuleValidator ?n cs' \<lparr>status = PASS, error = None\<rparr>, s5)"
    by blast
  then obtain cs' s5 where d:
      "validate (RuleValidator ?n [] \<lparr>status = FAIL, error = None\<rparr>) (Some listener) start =
       (Fulfilled \<lparr>status = PASS, error = None\<rparr>,
        RuleValidator ?n cs' \<lparr>status = PASS, error = None\<rparr>, s5)"
    by blast
  have "snd (validate (RuleValidator ?n [] \<lparr>status = FAIL, error = None\<rparr>) (Some listener) start)
     = (RuleValidator ?n [] \<lparr>status = PASS, error = None\<rparr>,
        \<lparr>ctx = 1,
          trace = [ObserverCalled ''n'' \<lparr>status = RUNNING, error = None\<rparr>,
                   RuleCalled ''n'',
                   ObserverCalled ''n'' \<lparr>status = PASS, error = None\<rparr>]\<rparr>)"
    by (simp add: model_defs)
  with d have "validate (RuleValidator ?n [] \<lparr>status = FAIL, error = None\<rparr>) (Some listener) start
     = (Fulfilled \<lparr>status = PASS, error = None\<rparr>,
        RuleValidator ?n [] \<lparr>status = PASS, error = None\<rparr>,
        \<lparr>ctx = 1,
          trace = [ObserverCalled ''n'' \<lparr>status = RUNNING, error = None\<rparr>,
                   RuleCalled ''n'',
                   ObserverCalled ''n'' \<lparr>status = PASS, error = None\<rparr>]\<rparr>)"
    by (simp del: validate.simps)
  with h k p m show ?thesis by (simp del: validate.simps)
qed

section \<open>A rejected promise comes from a guard or from the observer\<close>

lemma shouldExec_throws: "shouldExec info cur s = (Inl E, r, s1) \<Longrightarrow> guard_throws info"
proof -
  assume a: "shouldExec info cur s = (Inl E, r, s1)"
  then obtain g where g: "when_guard info = Some g"
    by (cases "when_guard info") (auto simp add: shouldExec_def)
  with a have "fst (g (ctx s) cur) = WhenThrows E"
    by (auto simp add: shouldExec_def split: prod.splits when_outcome.splits)
  with g show ?thesis unfolding guard_throws_def by blast
qed

lemma handleResult_throws:
  "handleResult i cur res obs fin s = (Some E, r, s') \<Longrightarrow> observer_throws obs"
  using handleResult_returns [of obs i cur res fin s "Some E" r s'] by auto

lemma ownRule_rejects:
  assumes "ownRule info cur obs s = (RejectedWith E, r, s')"
  shows "observer_throws obs"
proof (cases "rule_body info")
  case None
  with assms show ?thesis by (simp add: ownRule_def)
next
  case (Some body)
  from Some assms show ?thesis
  proof (cases rule: ownRule_steps)
    case (merged res cur1 s1 t)
    then obtain E' where "t = Some E'" by (cases t) auto
    with merged(2) show ?thesis by (auto intro: handleResult_throws)
  next
    case suspended
    then show ?thesis by simp
  qed
qed

lemma childLoop_rejects:
  assumes "\<And>c s c' s'. c \<in> set cs \<Longrightarrow> validate c obs s = (RejectedWith E, c', s') \<Longrightarrow>
             (\<exists>info\<in>set (infos c). guard_throws info) \<or> observer_throws obs"
  shows "childLoop cs i cur obs s = (RejectedWith E, r, cs', s') \<Longrightarrow>
           (\<exists>c\<in>set cs. \<exists>info\<in>set (infos c). guard_throws info) \<or> observer_throws obs"
  using assms
proof (induction cs arbitrary: cur s r cs' s')
  case Nil
  then show ?case by simp
next
  case (Cons c cs)
  show ?case
  proof (cases "status cur = RUNNING")
    case False
    with Cons.prems(1) show ?thesis by (simp add: childLoop_break)
  next
    case True
    have ih: "(\<exists>d\<in>set cs. \<exists>info\<in>set (infos d). guard_throws info) \<or> observer_throws obs"
      if "childLoop cs i cur' obs s2 = (RejectedWith E, r, rest', s')" for cur' s2 rest'
      using that
    proof (rule Cons.IH)
      fix d s d' s'
      assume "d \<in> set cs" "validate d obs s = (RejectedWith E, d', s')"
      then show "(\<exists>info\<in>set (infos d). guard_throws info) \<or> observer_throws obs"
        using Cons.prems(2) [of d s d' s'] by simp
    qed
    from True Cons.prems(1) show ?thesis
    proof (cases rule: childLoop_steps)
      case (child_stops p c')
      then have "validate c obs s = (RejectedWith E, c', s')" by auto
      with Cons.prems(2) [of c s c' s'] show ?thesis by auto
    next
      case (observer_throws childResult c' s1 E')
      from handleResult_throws [OF observer_throws(2)] show ?thesis by simp
    next
      case (goes_on childResult c' s1 cur' s2 rest')
      from ih [OF goes_on(3)] show ?thesis by auto
    qed
  qed
qed

lemma validate_rejects:
  "validate v obs s = (RejectedWith E, v', s') \<Longrightarrow>
   (\<exists>info\<in>set (infos v). guard_throws info) \<or> observer_throws obs"
proof (induction v arbitrary: s v' s')
  case (RuleValidator info cs r0)
  have loop: "(\<exists>c\<in>set cs. \<exists>info\<in>set (infos c). guard_throws info) \<or> observer_throws obs"
    if "childLoop cs i cur obs s = (RejectedWith E, r, cs', s')" for i cur s r cs' s'
    using that by (rule childLoop_rejects [rotated]) (rule RuleValidator.IH)
  from RuleValidator.prems show ?case
  proof (cases rule: validate_steps)
    case (guard_throws E' r1)
    from shouldExec_throws [OF guard_throws(1)] show ?thesis by simp
  next
    case (not_applicable r1 s1 t r2)
    then obtain E' where "t = Some E'" by (cases t) auto
    with not_applicable(2) show ?thesis by (auto intro: handleResult_throws)
  next
    case (running_throws r1 s1 E' r2)
    from handleResult_throws [OF running_throws(2)] show ?thesis by simp
  next
    case (rule_stops r1 s1 r2 s2 q r3)
    then have "ownRule info r2 obs s2 = (RejectedWith E, r3, s')" by auto
    from ownRule_rejects [OF this] show ?thesis by simp
  next
    case (loop_stops r1 s1 r2 s2 r3 s3 q r4 cs')
    then have "childLoop cs (ident info) r3 obs s3 = (RejectedWith E, r4, cs', s')" by auto
    from loop [OF this] show ?thesis by auto
  next
    case (completes r1 s1 r2 s2 r3 s3 r4 cs' s4 t r5)
    then obtain E' where t: "t = Some E'" by (cases t) auto
    with completes(5) have "handleResult (ident info) r4 \<lparr>status = PASS, error = None\<rparr>
        obs True s4 = (Some E', r5, s')"
      by (cases "status r4 = RUNNING") auto
    from handleResult_throws [OF this] show ?thesis by simp
  qed
qed

text \<open>
  C6, as stated, fails: a guard that throws is called outside any \<^verbatim>\<open>try\<close> (line 125), and
  the promise of \<open>validate\<close> is rejected with the thrown value.
\<close>

theorem validate_throwing_guard_rejects:
  "fst (validate
          (get (spec ''n'' (Some (answering (WhenThrows (OtherValue ''boom''))))
                  (Some (counting RuleReturnsVoid))))
          (Some listener) start)
     = RejectedWith (OtherValue ''boom'')"
  by (simp add: model_defs)

text \<open>
  C6, amended. Whatever the rule bodies do (return, throw, return a promise that is
  rejected, assign the node's result), the promise of \<open>validate\<close> is not rejected as long
  as no guard of the tree throws and the observer does not throw: what a rule body raises
  is contained and surfaces as a result. A guard that throws is not contained, and neither
  is an observer that throws (it is called at line 96, outside any \<^verbatim>\<open>try\<close>): the promise is
  rejected with the value thrown.
\<close>

theorem validate_rejects_only_when_guard_or_observer_throws:
  fixes info :: "('ctx, 'x) RuleDescription"
  shows
  "(guards_return v \<and> \<not> observer_throws obs \<longrightarrow> fst (validate v obs s) \<noteq> RejectedWith E) \<and>
   (when_guard info = Some g \<and>
    fst (g (ctx s) \<lparr>status = NONE, error = None\<rparr>) = WhenThrows E \<longrightarrow>
      fst (validate (RuleValidator info cs r0) obs s) = RejectedWith E) \<and>
   (when_guard info = None \<and>
    fst (ob (ident info) \<lparr>status = RUNNING, error = None\<rparr> (ctx s)) = Some E \<longrightarrow>
      fst (validate (RuleValidator info cs r0) (Some ob) s) = RejectedWith E)"
proof (intro conjI impI)
  assume g: "guards_return v \<and> \<not> observer_throws obs"
  show "fst (validate v obs s) \<noteq> RejectedWith E"
  proof
    assume "fst (validate v obs s) = RejectedWith E"
    then obtain v' s' where "validate v obs s = (RejectedWith E, v', s')"
      by (cases "validate v obs s") auto
    from validate_rejects [OF this] g show False by (auto simp add: guards_return_def)
  qed
next
  assume "when_guard info = Some g \<and>
    fst (g (ctx s) \<lparr>status = NONE, error = None\<rparr>) = WhenThrows E"
  then have "fst (shouldExec info \<lparr>status = NONE, error = None\<rparr> s) = Inl E"
    by (auto simp add: shouldExec_def split: prod.splits)
  then show "fst (validate (RuleValidator info cs r0) obs s) = RejectedWith E"
    by (cases "shouldExec info \<lparr>status = NONE, error = None\<rparr> s") simp
next
  assume a: "when_guard info = None \<and>
    fst (ob (ident info) \<lparr>status = RUNNING, error = None\<rparr> (ctx s)) = Some E"
  have "status (assigned \<lparr>status = NONE, error = None\<rparr>
      \<lparr>status = RUNNING, error = None :: 'x ValidationError option\<rparr> False)
      \<noteq> status \<lparr>status = NONE, error = None :: 'x ValidationError option\<rparr>"
    by (simp add: assigned_def)
  from handleResult_called [OF this, of "ident info" ob s] a
  have "fst (handleResult (ident info) \<lparr>status = NONE, error = None\<rparr>
      \<lparr>status = RUNNING, error = None\<rparr> (Some ob) False s) = Some E"
    by (simp add: assigned_def)
  with a show "fst (validate (RuleValidator info cs r0) (Some ob) s) = RejectedWith E"
    by (cases "handleResult (ident info) \<lparr>status = NONE, error = None\<rparr>
      \<lparr>status = RUNNING, error = None\<rparr> (Some ob) False s") (simp add: shouldExec_no_guard)
qed

theorem validate_rejects_only_when_guard_or_observer_throws_witness:
  "guards_return
     (addRule
        (get (spec ''n'' (Some (answering (WhenReturns True))) (Some (counting RuleReturnsVoid))))
        (spec ''k'' None
           (Some (counting (RuleReturnsPromise (RejectedWith (OtherValue ''late''))))))) \<and>
   \<not> observer_throws (Some listener) \<and>
   fst (validate
          (addRule
             (get (spec ''n'' (Some (answering (WhenReturns True))) (Some (counting RuleReturnsVoid))))
             (spec ''k'' None
                (Some (counting (RuleReturnsPromise (RejectedWith (OtherValue ''late'')))))))
          (Some listener) start)
     \<noteq> RejectedWith (OtherValue ''late'') \<and>
   when_guard (spec ''m'' (Some (answering (WhenThrows (OtherValue ''early'')))) None)
     = Some (answering (WhenThrows (OtherValue ''early''))) \<and>
   fst (answering (WhenThrows (OtherValue ''early'')) (ctx start) \<lparr>status = NONE, error = None\<rparr>)
     = WhenThrows (OtherValue ''early'') \<and>
   fst (validate
          (RuleValidator (spec ''m'' (Some (answering (WhenThrows (OtherValue ''early'')))) None)
             [] \<lparr>status = NONE, error = None\<rparr>)
          (Some listener) start)
     = RejectedWith (OtherValue ''early'') \<and>
   when_guard (spec ''o'' None None) = None \<and>
   fst (alarm ''o'' RUNNING (ident (spec ''o'' None None)) \<lparr>status = RUNNING, error = None\<rparr> (ctx start))
     = Some (OtherValue ''alarm'') \<and>
   fst (validate (RuleValidator (spec ''o'' None None) [] \<lparr>status = NONE, error = None\<rparr>)
          (Some (alarm ''o'' RUNNING)) start)
     = RejectedWith (OtherValue ''alarm'')"
proof -
  let ?t = "addRule
        (get (spec ''n'' (Some (answering (WhenReturns True))) (Some (counting RuleReturnsVoid))))
        (spec ''k'' None
           (Some (counting (RuleReturnsPromise (RejectedWith (OtherValue ''late''))))))"
  let ?m = "spec ''m'' (Some (answering (WhenThrows (OtherValue ''early'')))) None"
  let ?o = "spec ''o'' None None"
  have h: "guards_return ?t \<and> \<not> observer_throws (Some listener)"
    by (simp add: eval_defs)
  have w: "when_guard ?m = Some (answering (WhenThrows (OtherValue ''early''))) \<and>
    fst (answering (WhenThrows (OtherValue ''early'')) (ctx start) \<lparr>status = NONE, error = None\<rparr>)
     = WhenThrows (OtherValue ''early'')"
    by (simp add: spec_def answering_def)
  have o: "when_guard ?o = None \<and>
    fst (alarm ''o'' RUNNING (ident ?o) \<lparr>status = RUNNING, error = None\<rparr> (ctx start))
      = Some (OtherValue ''alarm'')"
    by (simp add: spec_def alarm_def)
  note a = validate_rejects_only_when_guard_or_observer_throws
         [where v = ?t and obs = "Some listener" and s = start and E = "OtherValue ''late''"]
  note b = validate_rejects_only_when_guard_or_observer_throws
         [where info = ?m and g = "answering (WhenThrows (OtherValue ''early''))" and s = start
            and E = "OtherValue ''early''" and obs = "Some listener" and cs = "[]"
            and ?r0.0 = "\<lparr>status = NONE, error = None\<rparr>"]
  note c = validate_rejects_only_when_guard_or_observer_throws
         [where info = ?o and ob = "alarm ''o'' RUNNING" and s = start
            and E = "OtherValue ''alarm''" and cs = "[]"
            and ?r0.0 = "\<lparr>status = NONE, error = None\<rparr>"]
  from a [THEN conjunct1, THEN mp, OF h]
       b [THEN conjunct2, THEN conjunct1, THEN mp, OF w]
       c [THEN conjunct2, THEN conjunct2, THEN mp, OF o]
       h w o
  show ?thesis by blast
qed

section \<open>The status a node ends in\<close>

lemma executeRule_none:
  "executeRule info cur s = (Fulfilled res, cur', s') \<Longrightarrow> status res = NONE \<Longrightarrow> returns_none info"
proof -
  assume a: "executeRule info cur s = (Fulfilled res, cur', s')" and n: "status res = NONE"
  then obtain body where b: "rule_body info = Some body"
    by (cases "rule_body info") (auto simp add: executeRule_def)
  with a n have "handed_over (fst (body (ctx s) cur)) = Some res"
    by (auto simp add: executeRule_def caught_def
        split: prod.splits rule_outcome.splits Promise.splits)
  with b n show ?thesis unfolding returns_none_def by blast
qed

lemma assigned_none:
  "status (assigned cur res fin) = NONE \<Longrightarrow> status cur \<noteq> NONE \<Longrightarrow> status res = NONE"
  by (simp add: assigned_eq split: if_splits)

lemma ownRule_none:
  assumes "rule_keeps info" and "observer_keeps obs"
    and "ownRule info cur obs s = (q, r, s')" and "status cur \<noteq> NONE" and "status r = NONE"
  shows "returns_none info"
proof (cases "rule_body info")
  case None
  with assms show ?thesis by (simp add: ownRule_def)
next
  case (Some body)
  from Some assms(3) show ?thesis
  proof (cases rule: ownRule_steps)
    case (merged res cur1 s1 t)
    from executeRule_keeps [OF assms(1) merged(1)] have "cur1 = cur" .
    with handleResult_kept [OF assms(2) merged(2)] have "r = assigned cur res False" by simp
    with assms(4,5) have "status res = NONE" by (auto dest: assigned_none)
    with merged(1) show ?thesis by (rule executeRule_none)
  next
    case suspended
    from executeRule_keeps [OF assms(1) suspended(1)] assms(4,5) show ?thesis by simp
  qed
qed

lemma childLoop_none:
  assumes "observer_keeps obs"
    and "\<And>c s r c' s'. c \<in> set cs \<Longrightarrow> validate c obs s = (Fulfilled r, c', s') \<Longrightarrow>
             status r = NONE \<Longrightarrow> \<exists>info\<in>set (infos c). returns_none info"
  shows "childLoop cs i cur obs s = (q, r, cs', s') \<Longrightarrow> status cur \<noteq> NONE \<Longrightarrow>
         status r = NONE \<Longrightarrow> \<exists>c\<in>set cs. \<exists>info\<in>set (infos c). returns_none info"
  using assms(2)
proof (induction cs arbitrary: cur s q r cs' s')
  case Nil
  then show ?case by simp
next
  case (Cons c cs)
  show ?case
  proof (cases "status cur = RUNNING")
    case False
    with Cons.prems(1,2,3) show ?thesis by (simp add: childLoop_break)
  next
    case True
    have ih: "\<exists>d\<in>set cs. \<exists>info\<in>set (infos d). returns_none info"
      if "childLoop cs i cur' obs s2 = (q, r, rest', s')" "status cur' \<noteq> NONE" for cur' s2 rest'
      using that Cons.prems(3)
    proof (rule Cons.IH)
      fix d s r d' s'
      assume "d \<in> set cs" "validate d obs s = (Fulfilled r, d', s')" "status r = NONE"
      then show "\<exists>info\<in>set (infos d). returns_none info"
        using Cons.prems(4) [of d s r d' s'] by simp
    qed
    have merge: "(\<exists>info\<in>set (infos c). returns_none info) \<or> status cur' \<noteq> NONE"
      if "validate c obs s = (Fulfilled childResult, c', s1)"
        "handleResult i cur childResult obs False s1 = (t, cur', s2)" for childResult c' s1 t cur' s2
    proof (cases "status cur' = NONE")
      case True
      with handleResult_kept [OF assms(1) that(2)] Cons.prems(2)
      have "status childResult = NONE" by (auto dest: assigned_none)
      with that(1) Cons.prems(4) [of c s childResult c' s1] show ?thesis by simp
    next
      case False
      then show ?thesis by simp
    qed
    from True Cons.prems(1) show ?thesis
    proof (cases rule: childLoop_steps)
      case (child_stops p c')
      with Cons.prems(2,3) show ?thesis by simp
    next
      case (observer_throws childResult c' s1 E)
      from merge [OF observer_throws(1,2)] Cons.prems(3) show ?thesis by auto
    next
      case (goes_on childResult c' s1 cur' s2 rest')
      from merge [OF goes_on(1,2)] ih [OF goes_on(3)] show ?thesis by auto
    qed
  qed
qed

lemma results_kept_node:
  "results_kept (RuleValidator info cs r0) \<Longrightarrow> guard_keeps info \<and> rule_keeps info"
  by (simp add: results_kept_def)

lemma results_kept_child:
  "results_kept (RuleValidator info cs r0) \<Longrightarrow> c \<in> set cs \<Longrightarrow> results_kept c"
  by (auto simp add: results_kept_def)

lemma validate_none:
  "observer_keeps obs \<Longrightarrow> results_kept v \<Longrightarrow> validate v obs s = (Fulfilled r, v', s') \<Longrightarrow>
   status r = NONE \<Longrightarrow> \<exists>info\<in>set (infos v). returns_none info"
proof (induction v arbitrary: s r v' s')
  case (RuleValidator info cs r0)
  note ok = RuleValidator.prems(1)
  from results_kept_node [OF RuleValidator.prems(2)]
  have keeps: "guard_keeps info" "rule_keeps info" by simp_all
  have loop: "\<exists>c\<in>set cs. \<exists>info\<in>set (infos c). returns_none info"
    if "childLoop cs i cur obs s = (q, r, cs', s')" "status cur \<noteq> NONE" "status r = NONE"
    for i cur s q r cs' s'
    using ok _ that
  proof (rule childLoop_none)
    fix c s r c' s'
    assume "c \<in> set cs" "validate c obs s = (Fulfilled r, c', s')" "status r = NONE"
    with RuleValidator.IH [OF _ ok results_kept_child [OF RuleValidator.prems(2)]]
    show "\<exists>info\<in>set (infos c). returns_none info" by blast
  qed
  from RuleValidator.prems(3) show ?case
  proof (cases rule: validate_steps)
    case (guard_throws E r1)
    then show ?thesis by simp
  next
    case (not_applicable r1 s1 t r2)
    from handleResult_kept [OF ok not_applicable(2)]
    have "status r2 = NOT_APPLICABLE" by (simp add: assigned_eq)
    with not_applicable(3) RuleValidator.prems(4) show ?thesis by (cases t) auto
  next
    case (running_throws r1 s1 E r2)
    then show ?thesis by simp
  next
    case (rule_stops r1 s1 r2 s2 q r3)
    then show ?thesis by auto
  next
    case (loop_stops r1 s1 r2 s2 r3 s3 q r4 cs')
    then show ?thesis by auto
  next
    case (completes r1 s1 r2 s2 r3 s3 r4 cs' s4 t r5)
    from handleResult_kept [OF ok completes(2)]
    have r2: "status r2 = RUNNING" by (simp add: assigned_eq)
    from completes(6) have t: "t = None" "r5 = r" by (cases t; simp)+
    have r4: "status r4 = NONE"
    proof (cases "status r4 = RUNNING")
      case True
      with completes(5) t have "handleResult (ident info) r4 \<lparr>status = PASS, error = None\<rparr>
          obs True s4 = (None, r, s')" by simp
      from handleResult_kept [OF ok this] True RuleValidator.prems(4) show ?thesis
        by (simp add: assigned_eq)
    next
      case False
      with completes(5) t RuleValidator.prems(4) show ?thesis by simp
    qed
    show ?thesis
    proof (cases "status r3 = NONE")
      case True
      from ownRule_none [OF keeps(2) ok completes(3) _ True] r2
      have "returns_none info" by simp
      then show ?thesis by simp
    next
      case False
      from loop [OF completes(4) False r4] show ?thesis by auto
    qed
  qed
qed

lemma validate_not_running:
  assumes "observer_keeps obs" and "validate v obs s = (Fulfilled r, v', s')"
  shows "status r \<noteq> RUNNING"
proof (cases v)
  case (RuleValidator info cs r0)
  with assms(2) have "validate (RuleValidator info cs r0) obs s = (Fulfilled r, v', s')" by simp
  then show ?thesis
  proof (cases rule: validate_steps)
    case (not_applicable r1 s1 t r2)
    from handleResult_kept [OF assms(1) not_applicable(2)]
    have "status r2 = NOT_APPLICABLE" by (simp add: assigned_eq)
    with not_applicable(3) show ?thesis by (cases t) auto
  next
    case (completes r1 s1 r2 s2 r3 s3 r4 cs' s4 t r5)
    from completes(6) have t: "t = None" "r5 = r" by (cases t; simp)+
    show ?thesis
    proof (cases "status r4 = RUNNING")
      case True
      with completes(5) t have "handleResult (ident info) r4 \<lparr>status = PASS, error = None\<rparr>
          obs True s4 = (None, r, s')" by simp
      from handleResult_kept [OF assms(1) this] True show ?thesis by (simp add: assigned_eq)
    next
      case False
      with completes(5) t show ?thesis by simp
    qed
  qed auto
qed

lemma status_cases:
  "st = NONE \<or> st = NOT_APPLICABLE \<or> st = RUNNING \<or> st = PASS \<or> st = INCONCLUSIVE \<or> st = FAIL"
  by (cases st) simp_all

text \<open>
  C9, as stated, fails: a rule body may return a result of status \<open>NONE\<close>; the merge takes
  it over unconditionally (lines 71-75), the child loop and the final merge are skipped, and
  the node ends in \<open>NONE\<close>.
\<close>

theorem validate_rule_returning_none_ends_none:
  "fst (validate
          (get (spec ''n'' None (Some (counting (RuleReturns \<lparr>status = NONE, error = None\<rparr>)))))
          (Some listener) start)
     = Fulfilled \<lparr>status = NONE, error = None\<rparr>"
  by (simp add: model_defs)

text \<open>
  An observer that assigns the node's result can leave any status: told of the \<open>PASS\<close> of
  the final merge, it assigns \<open>RUNNING\<close>, and that is what \<open>validate\<close> returns.
\<close>

lemma validate_observer_assigning_running:
  "fst (validate (get (spec ''n'' None None))
          (Some (meddler \<lparr>status = RUNNING, error = None\<rparr>)) start)
     = Fulfilled \<lparr>status = RUNNING, error = None\<rparr>"
  by (simp add: model_defs)

text \<open>
  C9, amended. If the observer assigns no result, the result \<open>validate\<close> resolves with
  never has status \<open>RUNNING\<close>. If, moreover, no guard and no rule body of the
  tree assigns the result of its node and no rule body of the tree returns a result of
  status \<open>NONE\<close>, its status is \<open>PASS\<close>, \<open>INCONCLUSIVE\<close>, \<open>FAIL\<close> or \<open>NOT_APPLICABLE\<close>.
\<close>

theorem validate_final_status:
  "fst (validate v obs s) = Fulfilled r \<Longrightarrow>
   (observer_keeps obs \<longrightarrow> status r \<noteq> RUNNING) \<and>
   (observer_keeps obs \<and> results_kept v \<and> no_rule_returns_none v \<longrightarrow>
      status r \<in> {PASS, INCONCLUSIVE, FAIL, NOT_APPLICABLE})"
proof -
  assume "fst (validate v obs s) = Fulfilled r"
  then obtain v' s' where v: "validate v obs s = (Fulfilled r, v', s')"
    by (cases "validate v obs s") auto
  have a: "status r \<noteq> RUNNING" if "observer_keeps obs"
    using that v by (rule validate_not_running)
  have b: "status r \<noteq> NONE" if "observer_keeps obs" "results_kept v" "no_rule_returns_none v"
    using validate_none [OF that(1,2) v] that(3) by (auto simp add: no_rule_returns_none_def)
  from a b status_cases [of "status r"] show ?thesis by auto
qed

theorem validate_final_status_witness:
  "fst (validate
          (addRule
             (get (spec ''n'' (Some (answering (WhenReturns True))) (Some (counting RuleReturnsVoid))))
             (spec ''k'' None
                (Some (counting (RuleReturnsPromise (RejectedWith (OtherValue ''late'')))))))
          (Some listener) start)
     = Fulfilled \<lparr>status = FAIL,
                   error = Some \<lparr>errorCode = ''late'', message = None, errorName = ''''\<rparr>\<rparr> \<and>
   observer_keeps (Some listener) \<and>
   results_kept
     (addRule
        (get (spec ''n'' (Some (answering (WhenReturns True))) (Some (counting RuleReturnsVoid))))
        (spec ''k'' None
           (Some (counting (RuleReturnsPromise (RejectedWith (OtherValue ''late''))))))) \<and>
   no_rule_returns_none
     (addRule
        (get (spec ''n'' (Some (answering (WhenReturns True))) (Some (counting RuleReturnsVoid))))
        (spec ''k'' None
           (Some (counting (RuleReturnsPromise (RejectedWith (OtherValue ''late''))))))) \<and>
   status \<lparr>status = FAIL,
           error = Some \<lparr>errorCode = ''late'', message = None, errorName = ''''\<rparr>\<rparr>
     \<noteq> RUNNING \<and>
   status \<lparr>status = FAIL,
           error = Some \<lparr>errorCode = ''late'', message = None, errorName = ''''\<rparr>\<rparr>
     \<in> {PASS, INCONCLUSIVE, FAIL, NOT_APPLICABLE}"
proof -
  let ?t = "addRule
        (get (spec ''n'' (Some (answering (WhenReturns True))) (Some (counting RuleReturnsVoid))))
        (spec ''k'' None
           (Some (counting (RuleReturnsPromise (RejectedWith (OtherValue ''late''))))))"
  have h: "fst (validate ?t (Some listener) start)
     = Fulfilled \<lparr>status = FAIL,
                   error = Some \<lparr>errorCode = ''late'', message = None, errorName = ''''\<rparr>\<rparr>"
    by (simp add: model_defs)
  have n: "observer_keeps (Some listener)" "results_kept ?t" "no_rule_returns_none ?t"
    by (simp_all add: eval_defs)
  from validate_final_status [OF h] h n show ?thesis by blast
qed

section \<open>The child loop stops at the first child that diverts the parent\<close>

lemma assigned_fail: "status res = FAIL \<Longrightarrow> status cur \<noteq> FAIL \<Longrightarrow> assigned cur res fin = res"
  by (simp add: assigned_eq)


text \<open>Children are kept in the order in which \<^verbatim>\<open>addValidator\<close> received them.\<close>

lemma addValidator_appends:
  "childValidators (addValidator (addValidator (addValidator p A) B) C) =
     childValidators p @ [A, B, C]"
  by (simp add: addValidator_def)



section \<open>Rule bodies that throw\<close>

lemma executeRule_throws:
  assumes "rule_body info = Some body"
    and "fst (body (ctx s) cur) = RuleThrows E \<or>
         fst (body (ctx s) cur) = RuleReturnsPromise (RejectedWith E)"
  shows "executeRule info cur s =
     (Fulfilled (caught E), snd (snd (body (ctx s) cur)),
      \<lparr>ctx = fst (snd (body (ctx s) cur)), trace = trace s @ [RuleCalled (ident info)]\<rparr>)"
  using assms by (cases "body (ctx s) cur") (auto simp add: executeRule_def)

lemma status_caught [simp]: "status (caught E) = FAIL"
  by (simp add: caught_def)

text \<open>
  C5. If the rule body throws \<open>E\<close>, or returns a promise that is rejected with \<open>E\<close> (an
  \<^verbatim>\<open>async\<close> body that throws), \<^verbatim>\<open>executeRule\<close> resolves with status \<open>FAIL\<close> and an error:
  \<open>E\<close> itself, unchanged, if it is a \<^verbatim>\<open>ValidationError\<close>; otherwise a new
  \<^verbatim>\<open>ValidationError\<close> with code \<open>E\<close> and no message. If the body left the node \<open>RUNNING\<close>
  and the observer does not assign the node's result, that result is the node's result
  after the merge of lines 131-133; and if the observer returns normally as well, it is
  what \<open>validate\<close> resolves with.
\<close>

theorem executeRule_throw_becomes_fail:
  assumes "rule_body info = Some body"
    and "fst (body (ctx s) cur) = RuleThrows E \<or>
         fst (body (ctx s) cur) = RuleReturnsPromise (RejectedWith E)"
  shows
    "(\<forall>e. E = ValidationErrorInstance e \<longrightarrow>
        fst (executeRule info cur s) = Fulfilled \<lparr>status = FAIL, error = Some e\<rparr>) \<and>
     (\<forall>x. E = OtherValue x \<longrightarrow>
        fst (executeRule info cur s) =
          Fulfilled \<lparr>status = FAIL,
                     error = Some \<lparr>errorCode = x, message = None, errorName = ''''\<rparr>\<rparr>) \<and>
     (status (snd (snd (body (ctx s) cur))) = RUNNING \<and> observer_keeps obs \<longrightarrow>
        Fulfilled (fst (snd (ownRule info cur obs s))) = fst (executeRule info cur s)) \<and>
     (\<forall>s0 r1 s1 cs r0.
        shouldExec info \<lparr>status = NONE, error = None\<rparr> s0 = (Inr True, r1, s1) \<and>
        handleResult (ident info) r1 \<lparr>status = RUNNING, error = None\<rparr> obs False s1
          = (None, cur, s) \<and>
        status (snd (snd (body (ctx s) cur))) = RUNNING \<and>
        \<not> observer_throws obs \<and> observer_keeps obs \<longrightarrow>
        fst (validate (RuleValidator info cs r0) obs s0) = fst (executeRule info cur s))"
proof -
  note e = executeRule_throws [OF assms]
  have 1: "\<forall>e. E = ValidationErrorInstance e \<longrightarrow>
        fst (executeRule info cur s) = Fulfilled \<lparr>status = FAIL, error = Some e\<rparr>"
    by (simp add: e caught_def)
  have 2: "\<forall>x. E = OtherValue x \<longrightarrow>
        fst (executeRule info cur s) =
          Fulfilled \<lparr>status = FAIL,
                     error = Some \<lparr>errorCode = x, message = None, errorName = ''''\<rparr>\<rparr>"
    by (simp add: e caught_def new_ValidationError_def)
  have own: "\<exists>t s'. ownRule info cur obs s =
      (case t of None \<Rightarrow> Fulfilled () | Some E' \<Rightarrow> RejectedWith E', caught E, s') \<and>
      (\<not> observer_throws obs \<longrightarrow> t = None)"
    if run: "status (snd (snd (body (ctx s) cur))) = RUNNING" and keeps: "observer_keeps obs"
  proof -
    obtain q r s' where o: "ownRule info cur obs s = (q, r, s')"
      by (cases "ownRule info cur obs s") auto
    from assms(1) o show ?thesis
    proof (cases rule: ownRule_steps)
      case (merged res cur1 s1 t)
      with e have res: "res = caught E" "cur1 = snd (snd (body (ctx s) cur))" by simp_all
      from handleResult_kept [OF keeps merged(2)] res run
      have "r = caught E" by (simp add: assigned_fail)
      with o merged(3) handleResult_returns [OF _ merged(2)] show ?thesis by auto
    next
      case suspended
      with e show ?thesis by simp
    qed
  qed
  have 3: "Fulfilled (fst (snd (ownRule info cur obs s))) = fst (executeRule info cur s)"
    if "status (snd (snd (body (ctx s) cur))) = RUNNING" "observer_keeps obs"
    using own [OF that] e by auto
  have 4: "fst (validate (RuleValidator info cs r0) obs s0) = fst (executeRule info cur s)"
    if g: "shouldExec info \<lparr>status = NONE, error = None\<rparr> s0 = (Inr True, r1, s1)"
      and h: "handleResult (ident info) r1 \<lparr>status = RUNNING, error = None\<rparr> obs False s1
          = (None, cur, s)"
      and run: "status (snd (snd (body (ctx s) cur))) = RUNNING"
      and quiet: "\<not> observer_throws obs" "observer_keeps obs" for s0 r1 s1 cs r0
  proof -
    from own [OF run quiet(2)] quiet(1) obtain s' where
      "ownRule info cur obs s = (Fulfilled (), caught E, s')" by auto
    with g h e show ?thesis by (simp add: childLoop_break)
  qed
  from 1 2 3 4 show ?thesis by blast
qed

theorem executeRule_throw_becomes_fail_witness:
  "fst (counting (RuleThrows (OtherValue ''boom'')) (ctx start) \<lparr>status = RUNNING, error = None\<rparr>)
     = RuleThrows (OtherValue ''boom'') \<and>
   fst (executeRule (spec ''n'' None (Some (counting (RuleThrows (OtherValue ''boom'')))))
          \<lparr>status = RUNNING, error = None\<rparr> start)
     = Fulfilled \<lparr>status = FAIL,
                   error = Some \<lparr>errorCode = ''boom'', message = None, errorName = ''''\<rparr>\<rparr> \<and>
   fst (validate (get (spec ''n'' None (Some (counting (RuleThrows (OtherValue ''boom''))))))
          None start)
     = Fulfilled \<lparr>status = FAIL,
                   error = Some \<lparr>errorCode = ''boom'', message = None, errorName = ''''\<rparr>\<rparr> \<and>
   fst (counting
          (RuleReturnsPromise (RejectedWith (ValidationErrorInstance
             \<lparr>errorCode = ''E42'', message = Some ''bad input'', errorName = ''''\<rparr>)))
          (ctx start) \<lparr>status = RUNNING, error = None\<rparr>)
     = RuleReturnsPromise (RejectedWith (ValidationErrorInstance
         \<lparr>errorCode = ''E42'', message = Some ''bad input'', errorName = ''''\<rparr>)) \<and>
   fst (executeRule
          (spec ''n'' None
             (Some (counting (RuleReturnsPromise (RejectedWith (ValidationErrorInstance
                \<lparr>errorCode = ''E42'', message = Some ''bad input'', errorName = ''''\<rparr>))))))
          \<lparr>status = RUNNING, error = None\<rparr> start)
     = Fulfilled \<lparr>status = FAIL,
                   error = Some \<lparr>errorCode = ''E42'', message = Some ''bad input'',
                                  errorName = ''''\<rparr>\<rparr> \<and>
   observer_keeps (Some listener) \<and>
   fst (snd (ownRule
          (spec ''n'' None
             (Some (counting (RuleReturnsPromise (RejectedWith (ValidationErrorInstance
                \<lparr>errorCode = ''E42'', message = Some ''bad input'', errorName = ''''\<rparr>))))))
          \<lparr>status = RUNNING, error = None\<rparr> (Some listener) start))
     = \<lparr>status = FAIL,
        error = Some \<lparr>errorCode = ''E42'', message = Some ''bad input'', errorName = ''''\<rparr>\<rparr>"
proof -
  let ?run = "\<lparr>status = RUNNING, error = None :: string ValidationError option\<rparr>"
  let ?boom = "counting (RuleThrows (OtherValue ''boom''))"
  let ?e = "\<lparr>errorCode = ''E42'', message = Some ''bad input'', errorName = ''''\<rparr>"
  let ?bad = "counting (RuleReturnsPromise (RejectedWith (ValidationErrorInstance ?e)))"
  have b1: "rule_body (spec ''n'' None (Some ?boom)) = Some ?boom" by (simp add: spec_def)
  have t1: "fst (?boom (ctx start) ?run) = RuleThrows (OtherValue ''boom'')"
    by (simp add: counting_def)
  have b2: "rule_body (spec ''n'' None (Some ?bad)) = Some ?bad" by (simp add: spec_def)
  have t2: "fst (?bad (ctx start) ?run) = RuleReturnsPromise (RejectedWith (ValidationErrorInstance ?e))"
    by (simp add: counting_def)
  have g: "shouldExec (spec ''n'' None (Some ?boom)) \<lparr>status = NONE, error = None\<rparr> start
      = (Inr True, \<lparr>status = NONE, error = None\<rparr>, start)"
    by (simp add: shouldExec_def spec_def)
  have r: "handleResult (ident (spec ''n'' None (Some ?boom))) \<lparr>status = NONE, error = None\<rparr>
      \<lparr>status = RUNNING, error = None\<rparr> None False start = (None, ?run, start)"
    by (simp add: handleResult_def assigned_def Let_def)
  have k: "status (snd (snd (?boom (ctx start) ?run))) = RUNNING"
    "status (snd (snd (?bad (ctx start) ?run))) = RUNNING"
    by (simp_all add: counting_def)
  have q: "\<not> observer_throws (None :: (nat, string) ValidationObserver option)"
    "observer_keeps (None :: (nat, string) ValidationObserver option)"
    "observer_keeps (Some listener)"
    by (simp_all add: eval_defs)
  note i1 = executeRule_throw_becomes_fail [OF b1 disjI1 [OF t1], where obs = None]
  note i2 = executeRule_throw_becomes_fail [OF b2 disjI2 [OF t2], where obs = "Some listener"]
  from i1 have 1: "fst (executeRule (spec ''n'' None (Some ?boom)) ?run start)
     = Fulfilled \<lparr>status = FAIL,
                   error = Some \<lparr>errorCode = ''boom'', message = None, errorName = ''''\<rparr>\<rparr>"
    by blast
  from i1 g r k(1) q(1,2) have "fst (validate (RuleValidator (spec ''n'' None (Some ?boom)) []
      \<lparr>status = NONE, error = None\<rparr>) None start)
      = fst (executeRule (spec ''n'' None (Some ?boom)) ?run start)"
    by blast
  with 1 have 2: "fst (validate (get (spec ''n'' None (Some ?boom))) None start)
     = Fulfilled \<lparr>status = FAIL,
                   error = Some \<lparr>errorCode = ''boom'', message = None, errorName = ''''\<rparr>\<rparr>"
    by (simp add: get_def del: validate.simps)
  from i2 have 3: "fst (executeRule (spec ''n'' None (Some ?bad)) ?run start)
     = Fulfilled \<lparr>status = FAIL, error = Some ?e\<rparr>"
    by blast
  from i2 k(2) q(3) have "Fulfilled (fst (snd (ownRule (spec ''n'' None (Some ?bad)) ?run
      (Some listener) start))) = fst (executeRule (spec ''n'' None (Some ?bad)) ?run start)"
    by blast
  with 3 have 4: "fst (snd (ownRule (spec ''n'' None (Some ?bad)) ?run (Some listener) start))
     = \<lparr>status = FAIL, error = Some ?e\<rparr>"
    by simp
  from t1 1 2 t2 3 q(3) 4 show ?thesis by blast
qed

section \<open>The observer\<close>





section \<open>Guards\<close>

text \<open>
  A guard that returns \<^verbatim>\<open>false\<close> itself and leaves the node alone: the node is not
  applicable, and the only callbacks called are the guard and, once, the observer.
\<close>

lemma validate_sync_guard_false:
  assumes "when_guard info = Some g"
    and "g (ctx s) \<lparr>status = NONE, error = None\<rparr> = (WhenReturns False, c, \<lparr>status = NONE, error = None\<rparr>)"
    and "\<not> observer_throws obs" and "observer_keeps obs"
  shows "validate (RuleValidator info cs r0) obs s =
           (Fulfilled \<lparr>status = NOT_APPLICABLE, error = None\<rparr>,
            RuleValidator info cs \<lparr>status = NOT_APPLICABLE, error = None\<rparr>,
            \<lparr>ctx = (case obs of None \<Rightarrow> c
                     | Some ob \<Rightarrow>
                         fst (snd (ob (ident info) \<lparr>status = NOT_APPLICABLE, error = None\<rparr> c))),
              trace = trace s @ WhenCalled (ident info) #
                (case obs of None \<Rightarrow> []
                 | Some _ \<Rightarrow> [ObserverCalled (ident info)
                                 \<lparr>status = NOT_APPLICABLE, error = None\<rparr>])\<rparr>)"
proof -
  let ?s1 = "\<lparr>ctx = c, trace = trace s @ [WhenCalled (ident info)]\<rparr>"
  have g: "shouldExec info \<lparr>status = NONE, error = None\<rparr> s
      = (Inr False, \<lparr>status = NONE, error = None\<rparr>, ?s1)"
    using assms(1,2) by (simp add: shouldExec_def)
  obtain t r s' where h: "handleResult (ident info) \<lparr>status = NONE, error = None\<rparr>
      \<lparr>status = NOT_APPLICABLE, error = None\<rparr> obs True ?s1 = (t, r, s')"
    by (cases "handleResult (ident info) \<lparr>status = NONE, error = None\<rparr>
      \<lparr>status = NOT_APPLICABLE, error = None\<rparr> obs True ?s1") auto
  from handleResult_returns [OF assms(3) h] handleResult_kept [OF assms(4) h]
  have tr: "t = None" "r = \<lparr>status = NOT_APPLICABLE, error = None\<rparr>"
    by (simp_all add: assigned_def)
  have s': "s' = \<lparr>ctx = (case obs of None \<Rightarrow> c
                     | Some ob \<Rightarrow>
                         fst (snd (ob (ident info) \<lparr>status = NOT_APPLICABLE, error = None\<rparr> c))),
              trace = trace s @ WhenCalled (ident info) #
                (case obs of None \<Rightarrow> []
                 | Some _ \<Rightarrow> [ObserverCalled (ident info)
                                 \<lparr>status = NOT_APPLICABLE, error = None\<rparr>])\<rparr>"
    using h by (auto simp add: handleResult_def assigned_def Let_def split: option.splits prod.splits)
  from g h tr s' show ?thesis by simp
qed

text \<open>
  C1 at a guard that returns a promise fulfilled with \<^verbatim>\<open>false\<close>: the node does not resolve
  with \<open>NOT_APPLICABLE\<close>. Its rule body runs, its child \<open>k\<close> is validated, and the node
  resolves with the child's \<open>FAIL\<close>.
\<close>

theorem validate_async_false_guard_runs_anyway:
  "fst (validate
          (addRule
             (get (spec ''n'' (Some (answering (WhenReturnsPromise (Fulfilled False))))
                     (Some (counting RuleReturnsVoid))))
             (spec ''k'' None (Some (counting (RuleReturns \<lparr>status = FAIL, error = None\<rparr>)))))
          (Some listener) start)
     = Fulfilled \<lparr>status = FAIL, error = None\<rparr> \<and>
   snd (snd (validate
          (addRule
             (get (spec ''n'' (Some (answering (WhenReturnsPromise (Fulfilled False))))
                     (Some (counting RuleReturnsVoid))))
             (spec ''k'' None (Some (counting (RuleReturns \<lparr>status = FAIL, error = None\<rparr>)))))
          (Some listener) start))
     = \<lparr>ctx = 2,
        trace = [WhenCalled ''n'',
                 ObserverCalled ''n'' \<lparr>status = RUNNING, error = None\<rparr>,
                 RuleCalled ''n'',
                 ObserverCalled ''k'' \<lparr>status = RUNNING, error = None\<rparr>,
                 RuleCalled ''k'',
                 ObserverCalled ''k'' \<lparr>status = FAIL, error = None\<rparr>,
                 ObserverCalled ''n'' \<lparr>status = FAIL, error = None\<rparr>]\<rparr>"
  by (simp add: model_defs)





end
